theory Spec2Isabelle
  imports Main "HOL-Library.Word" "HOL-Library.Signed_Division"
begin

section \<open>Machine integers of vblankmanager.cpp\<close>

text \<open>
  \<open>uint64_t\<close> is a 64-bit word: \<open>+\<close>, \<open>-\<close> and \<open>*\<close> wrap modulo \<open>2 ^ 64\<close>,
  \<open>div\<close>, \<open>\<le>\<close>, \<open>min\<close> and \<open>max\<close> read the word as unsigned.
  \<open>int\<close> is a 32-bit word read as two's complement through \<open>sint\<close>.
\<close>

type_synonym u64 = "64 word"
type_synonym c_int = "32 word"

text \<open>
  \<open>a / b\<close> and \<open>a % b\<close> on \<open>int\<close> truncate towards zero. Both are undefined
  (\<open>None\<close>) for \<open>b = 0\<close> and for \<open>INT_MIN\<close> against \<open>-1\<close>.
\<close>

definition c_int_div :: "c_int \<Rightarrow> c_int \<Rightarrow> c_int option" where
  "c_int_div a b =
     (if b = 0 \<or> (sint a = - (2 ^ 31) \<and> sint b = - 1) then None
      else Some (word_of_int (sint a sdiv sint b)))"

definition c_int_mod :: "c_int \<Rightarrow> c_int \<Rightarrow> c_int option" where
  "c_int_mod a b =
     (if b = 0 \<or> (sint a = - (2 ^ 31) \<and> sint b = - 1) then None
      else Some (word_of_int (sint a smod sint b)))"

text \<open>
  \<open>1'000'000'000ul / n\<close> for an \<open>int n\<close>: the operand is converted to
  \<open>unsigned long\<close> by sign extension and the division is unsigned.
  \<open>None\<close> is the division by zero.
\<close>

definition nsec_per :: "c_int \<Rightarrow> u64 option" where
  "nsec_per n = (if n = 0 then None else Some (1000000000 div scast n))"

section \<open>The vblank predictor\<close>

definition g_uStartingDrawTime :: u64 where
  "g_uStartingDrawTime = 3000000"

definition g_uVBlankRateOfDecayMax :: u64 where
  "g_uVBlankRateOfDecayMax = 100"

text \<open>Line 61: the nested refresh rate overrides the output's when it is not zero.\<close>

definition current_refresh :: "c_int \<Rightarrow> c_int \<Rightarrow> c_int" where
  "current_refresh g_nNestedRefresh g_nOutputRefresh =
     (if g_nNestedRefresh \<noteq> 0 then g_nNestedRefresh else g_nOutputRefresh)"

text \<open>Line 72: the update of \<open>rollingMaxDrawTime\<close>, with \<open>range = g_uVBlankRateOfDecayMax\<close>.\<close>

definition rolling_update :: "u64 \<Rightarrow> u64 \<Rightarrow> u64 \<Rightarrow> u64" where
  "rolling_update alpha rollingMaxDrawTime drawTime =
     (alpha * max rollingMaxDrawTime drawTime
        + (g_uVBlankRateOfDecayMax - alpha) * drawTime) div g_uVBlankRateOfDecayMax"

text \<open>Line 76: the clamp to half of the refresh interval.\<close>

definition rolling_clamp :: "u64 \<Rightarrow> u64 \<Rightarrow> u64 \<Rightarrow> u64" where
  "rolling_clamp rollingMaxDrawTime redZone nsecInterval =
     min (rollingMaxDrawTime + redZone) (nsecInterval div 2) - redZone"

text \<open>
  Lines 109-110 and 227-228: \<open>while ( targetPoint < now ) targetPoint += interval;\<close>.
  The loop need not end (an interval of 0, or a wrap-around past \<open>now\<close>); not
  returning is \<open>None\<close>.
\<close>

partial_function (option) advance_targetPoint :: "u64 \<Rightarrow> u64 \<Rightarrow> u64 \<Rightarrow> u64 option" where
  "advance_targetPoint targetPoint now interval =
     (if targetPoint < now then advance_targetPoint (targetPoint + interval) now interval
      else Some targetPoint)"

declare advance_targetPoint.simps [code]

text \<open>Lines 105-110: the wake time handed to \<open>sleep_until_nanos\<close>.\<close>

definition vblank_targetPoint :: "u64 \<Rightarrow> u64 \<Rightarrow> u64 \<Rightarrow> u64 \<Rightarrow> u64 option" where
  "vblank_targetPoint g_lastVblank offset nsecInterval now =
     (let lastVblank = g_lastVblank - offset;
          targetPoint = lastVblank + nsecInterval
      in advance_targetPoint targetPoint now nsecInterval)"

text \<open>What one pass of the predictor's loop reads from the globals and the clock.\<close>

record vblank_env =
  g_uVBlankRateOfDecayPercentage :: u64
  g_nNestedRefresh :: c_int
  g_nOutputRefresh :: c_int
  g_uVblankDrawTimeNS :: u64
  g_uVblankDrawBufferRedZoneNS :: u64
  g_lastVblank :: u64
  now_ns :: u64

text \<open>
  What one pass computes: the new \<open>rollingMaxDrawTime\<close>, the \<open>offset\<close>, the argument of
  \<open>sleep_until_nanos\<close> and the argument of \<open>sleep_for_nanos\<close>.
\<close>

record vblank_pass =
  rollingMaxDrawTime :: u64
  offset_ns :: u64
  sleep_until_arg :: u64
  sleep_for_arg :: u64

text \<open>
  Lines 60-128 of \<open>vblankThreadRun\<close>, one pass of \<open>while ( true )\<close>. \<open>None\<close>: the
  division by a refresh rate of 0, or the inner loop does not end.
\<close>

definition vblankThreadRun_pass :: "vblank_env \<Rightarrow> u64 \<Rightarrow> vblank_pass option" where
  "vblankThreadRun_pass e rollingMax =
     (let alpha = g_uVBlankRateOfDecayPercentage e;
          refresh = current_refresh (g_nNestedRefresh e) (g_nOutputRefresh e)
      in case nsec_per refresh of
           None \<Rightarrow> None
         | Some nsecInterval \<Rightarrow>
             (let drawTime = g_uVblankDrawTimeNS e;
                  r1 = rolling_update alpha rollingMax drawTime;
                  r2 = rolling_clamp r1 (g_uVblankDrawBufferRedZoneNS e) nsecInterval;
                  offset = r2 + g_uVblankDrawBufferRedZoneNS e
              in case vblank_targetPoint (g_lastVblank e) offset nsecInterval (now_ns e) of
                   None \<Rightarrow> None
                 | Some targetPoint \<Rightarrow>
                     Some \<lparr>rollingMaxDrawTime = r2, offset_ns = offset,
                           sleep_until_arg = targetPoint,
                           sleep_for_arg = offset + 1000000\<rparr>))"

subsection \<open>Initialisation\<close>

text \<open>
  The globals \<open>vblank_init\<close> writes, and whether the detached thread was started.
  \<open>pipe2\<close> either fails or fills in the two descriptors.
\<close>

record vblank_globals =
  g_vblankPipe :: "c_int \<times> c_int"
  g_lastVblank_atomic :: u64
  vblankThread_started :: bool

datatype pipe2_result = pipe2_failed | pipe2_ok c_int c_int

definition vblank_init :: "pipe2_result \<Rightarrow> u64 \<Rightarrow> vblank_globals \<Rightarrow> c_int \<times> vblank_globals" where
  "vblank_init p now g =
     (case p of
        pipe2_failed \<Rightarrow> (- 1, g)
      | pipe2_ok rd wr \<Rightarrow>
          (rd, g\<lparr>g_vblankPipe := (rd, wr), g_lastVblank_atomic := now,
                 vblankThread_started := True\<rparr>))"

definition vblank_mark_possible_vblank :: "u64 \<Rightarrow> vblank_globals \<Rightarrow> vblank_globals" where
  "vblank_mark_possible_vblank nanos g = g\<lparr>g_lastVblank_atomic := nanos\<rparr>"

section \<open>The fps limiter\<close>

text \<open>Lines 275-291. \<open>None\<close> is an undefined \<open>%\<close> or \<open>/\<close>.\<close>

definition fpslimit_use_frame_callbacks_for_focus_window ::
  "c_int \<Rightarrow> c_int \<Rightarrow> c_int \<Rightarrow> bool option" where
  "fpslimit_use_frame_callbacks_for_focus_window outputRefresh nTargetFPS nVBlankCount =
     (if nTargetFPS = 0 then Some True
      else case c_int_mod outputRefresh nTargetFPS of
             None \<Rightarrow> None
           | Some r \<Rightarrow>
               if r = 0 then
                 (case c_int_div outputRefresh nTargetFPS of
                    None \<Rightarrow> None
                  | Some q \<Rightarrow>
                      (case c_int_mod nVBlankCount q of
                         None \<Rightarrow> None
                       | Some m \<Rightarrow> Some (m \<noteq> 0)))
               else Some False)"

record FrameInfo_t =
  lastFrame :: u64
  currentFrame :: u64
  frameCount :: u64

text \<open>
  The limiter's state: the two globals guarded by \<open>g_TargetFPSMutex\<close>, the locals of
  \<open>fpslimitThreadRun\<close> that live across passes (\<open>targetInterval\<close> holds what line 195
  computed last, 0 before the first pass), the snapshot taken under the lock at lines
  186-187 (\<open>None\<close> while the thread is blocked in the wait of line 185), and a log of what
  the thread did: the calls of \<open>steamcompmgr_fpslimit_release_commit\<close>,
  \<open>steamcompmgr_send_frame_done_to_focus_window\<close> and \<open>nudge_steamcompmgr\<close>, and the
  frame counts of the snapshots it worked on.
\<close>

record fpslimit_state =
  g_nFpsLimitTargetFPS :: c_int
  g_FrameInfo :: FrameInfo_t
  deviation :: u64
  lastFrameCount :: u64
  lastCommitReleased :: u64
  targetInterval :: u64
  snapshot :: "(c_int \<times> FrameInfo_t) option"
  release_commits :: nat
  frame_dones :: nat
  nudges :: nat
  processed :: "u64 list"

text \<open>
  Lines 157-165, 176-178 and 257-258: the state once \<open>fpslimit_init\<close> has run and the
  thread has reached its loop. The three arguments are the clock readings of lines 257,
  258 and 178.
\<close>

definition fpslimit_init :: "u64 \<Rightarrow> u64 \<Rightarrow> u64 \<Rightarrow> fpslimit_state" where
  "fpslimit_init ta tb tc =
     \<lparr>g_nFpsLimitTargetFPS = 0,
      g_FrameInfo = \<lparr>lastFrame = ta, currentFrame = tb, frameCount = 0\<rparr>,
      deviation = 0, lastFrameCount = 0, lastCommitReleased = tc, targetInterval = 0,
      snapshot = None, release_commits = 0, frame_dones = 0, nudges = 0, processed = []\<rparr>"

text \<open>Lines 264-273, on the frame record and on the state.\<close>

definition mark_frame :: "u64 \<Rightarrow> FrameInfo_t \<Rightarrow> FrameInfo_t" where
  "mark_frame now fi =
     \<lparr>lastFrame = currentFrame fi, currentFrame = now, frameCount = frameCount fi + 1\<rparr>"

definition fpslimit_mark_frame :: "u64 \<Rightarrow> fpslimit_state \<Rightarrow> fpslimit_state" where
  "fpslimit_mark_frame now s = s\<lparr>g_FrameInfo := mark_frame now (g_FrameInfo s)\<rparr>"

text \<open>Lines 294-302.\<close>

definition fpslimit_set_target :: "c_int \<Rightarrow> fpslimit_state \<Rightarrow> fpslimit_state" where
  "fpslimit_set_target nTargetFPS s = s\<lparr>g_nFpsLimitTargetFPS := nTargetFPS\<rparr>"

text \<open>Line 185: the predicate of the condition variable's wait.\<close>

definition wait_predicate :: "fpslimit_state \<Rightarrow> bool" where
  "wait_predicate s \<longleftrightarrow>
     g_nFpsLimitTargetFPS s \<noteq> 0 \<and> frameCount (g_FrameInfo s) \<noteq> lastFrameCount s"

text \<open>
  What lines 193-251 read from outside the state: the output's refresh rate and the
  clock at line 198, at line 223, at line 232 (after the sleep) and at line 215 or 239.
\<close>

record pass_env =
  outputRefresh :: c_int
  clock_t1 :: u64
  clock_now :: u64
  clock_woken :: u64
  clock_released :: u64

text \<open>
  Lines 214-219 and 238-243, then 247-251: the release, and the frame callbacks and the
  nudge when \<open>useFrameCallbacks\<close> is false.
\<close>

definition release_commit :: "bool \<Rightarrow> u64 \<Rightarrow> fpslimit_state \<Rightarrow> fpslimit_state" where
  "release_commit useFrameCallbacks t s =
     s\<lparr>lastCommitReleased := t,
       release_commits := release_commits s + 1,
       frame_dones := frame_dones s + (if useFrameCallbacks then 0 else 2),
       nudges := nudges s + (if useFrameCallbacks then 0 else 1)\<rparr>"

text \<open>
  Lines 193-251 of \<open>fpslimitThreadRun\<close> on the snapshot \<open>(nTargetFPS, frameInfo)\<close>.
  \<open>None\<close>: an undefined division, or the inner loop does not end.
\<close>

definition fpslimitThreadRun_pass ::
  "pass_env \<Rightarrow> c_int \<Rightarrow> FrameInfo_t \<Rightarrow> fpslimit_state \<Rightarrow> fpslimit_state option" where
  "fpslimitThreadRun_pass e nTargetFPS frameInfo s =
     (case fpslimit_use_frame_callbacks_for_focus_window (outputRefresh e) nTargetFPS 0 of
        None \<Rightarrow> None
      | Some useFrameCallbacks \<Rightarrow>
          (case nsec_per nTargetFPS of
             None \<Rightarrow> None
           | Some tI \<Rightarrow>
               (let t0 = lastCommitReleased s;
                    t1 = clock_t1 e;
                    frameTime = t1 - t0;
                    s1 = s\<lparr>targetInterval := tI, lastFrameCount := frameCount frameInfo,
                           processed := processed s @ [frameCount frameInfo]\<rparr>
                in if frameTime * 100 > tI * 103 - deviation s * 100 then
                     Some (release_commit useFrameCallbacks (clock_released e)
                             (s1\<lparr>deviation := 0\<rparr>))
                   else
                     (let now = clock_now e
                      in case advance_targetPoint (now + tI - deviation s - frameTime) now tI of
                           None \<Rightarrow> None
                         | Some targetPoint \<Rightarrow>
                             (let t1' = clock_woken e;
                                  frameTime' = t1' - t0;
                                  d1 = deviation s + (frameTime' - tI);
                                  d2 = min d1 (tI div 16)
                              in Some (release_commit useFrameCallbacks (clock_released e)
                                         (s1\<lparr>deviation := d2\<rparr>)))))))"

subsection \<open>The limiter with its callers\<close>

text \<open>
  The steps that touch the limiter's state. \<open>fpslimit_set_target\<close>, \<open>fpslimit_mark_frame\<close>
  and the thread's wait-and-snapshot (lines 184-188) hold the mutex, so each is one step;
  the rest of a pass (lines 193-251) runs without the lock and is a step of its own. A
  step that cannot be taken is \<open>None\<close>: the thread leaves the wait only when the
  predicate holds.
\<close>

datatype event =
    SetTarget c_int
  | MarkFrame u64
  | Wake
  | Pass pass_env

fun step :: "event \<Rightarrow> fpslimit_state \<Rightarrow> fpslimit_state option" where
  "step (SetTarget n) s = Some (fpslimit_set_target n s)"
| "step (MarkFrame now) s = Some (fpslimit_mark_frame now s)"
| "step Wake s =
     (if snapshot s = None \<and> wait_predicate s
      then Some (s\<lparr>snapshot := Some (g_nFpsLimitTargetFPS s, g_FrameInfo s)\<rparr>)
      else None)"
| "step (Pass e) s =
     (case snapshot s of
        None \<Rightarrow> None
      | Some (nTargetFPS, frameInfo) \<Rightarrow>
          map_option (\<lambda>s'. s'\<lparr>snapshot := None\<rparr>)
            (fpslimitThreadRun_pass e nTargetFPS frameInfo s))"

fun run :: "event list \<Rightarrow> fpslimit_state \<Rightarrow> fpslimit_state option" where
  "run [] s = Some s"
| "run (ev # evs) s = (case step ev s of None \<Rightarrow> None | Some s' \<Rightarrow> run evs s')"

text \<open>The clock readings of the \<open>fpslimit_mark_frame\<close> calls among the steps, in order.\<close>

fun mark_times :: "event list \<Rightarrow> u64 list" where
  "mark_times [] = []"
| "mark_times (MarkFrame t # evs) = t # mark_times evs"
| "mark_times (ev # evs) = mark_times evs"

text \<open>
  What holds of the frame counts in every state reached without a wrap of the counter:
  the count the thread saw last is not ahead of the global one, a snapshot is of a count
  the thread has not worked on, and the counts worked on so far increase strictly.
\<close>

definition limiter_inv :: "fpslimit_state \<Rightarrow> bool" where
  "limiter_inv s \<longleftrightarrow>
     lastFrameCount s \<le> frameCount (g_FrameInfo s)
     \<and> (\<forall>n fi. snapshot s = Some (n, fi) \<longrightarrow>
            n \<noteq> 0 \<and> lastFrameCount s < frameCount fi
          \<and> frameCount fi \<le> frameCount (g_FrameInfo s))
     \<and> sorted_wrt (<) (processed s)
     \<and> (\<forall>c \<in> set (processed s). c \<le> lastFrameCount s)"

section \<open>The frame-callback decision\<close>

text \<open>
  C10. With a target of 0 frames per second the decision is true for every vblank
  count and every refresh rate: the function returns before any \<open>%\<close> or \<open>/\<close>.
\<close>

theorem use_frame_callbacks_target_zero:
  "fpslimit_use_frame_callbacks_for_focus_window refresh 0 v = Some True"
  by (simp add: fpslimit_use_frame_callbacks_for_focus_window_def)

text \<open>
  With the vblank count 0 that line 193 passes, the decision is never true for a target
  other than 0: an aligned target gives the remainder of 0, an unaligned one false.
\<close>

lemma use_frame_callbacks_count_zero:
  "nTargetFPS \<noteq> 0 \<Longrightarrow>
     fpslimit_use_frame_callbacks_for_focus_window refresh nTargetFPS 0 \<noteq> Some True"
  by (auto simp add: fpslimit_use_frame_callbacks_for_focus_window_def c_int_mod_def
      c_int_div_def split: option.splits if_splits)

text \<open>
  C1. With a refresh rate of 60, a target of 30 and the vblank count 0 that the limiter
  passes, the decision is \<open>0 % (60 / 30) = 0\<close>, which is false: the aligned target does
  not yield true.
\<close>

theorem use_frame_callbacks_60_30_0:
  "fpslimit_use_frame_callbacks_for_focus_window 60 30 0 = Some False"
  by (simp add: fpslimit_use_frame_callbacks_for_focus_window_def c_int_mod_def c_int_div_def
      signed_divide_int_def signed_modulo_int_def)


section \<open>The rolling estimate of the draw time\<close>

lemma rolling_update_nat:
  assumes a: "unat alpha \<le> 100" and r: "100 * unat r < 2 ^ 64" and d: "100 * unat d < 2 ^ 64"
  shows "unat (rolling_update alpha r d) =
           (unat alpha * max (unat r) (unat d) + (100 - unat alpha) * unat d) div 100"
proof -
  let ?m = "max r d"
  have m: "unat ?m = max (unat r) (unat d)"
    by (simp add: max_def word_le_nat_alt)
  have m100: "100 * unat ?m < 2 ^ 64" using r d m by (simp add: max_def split: if_splits)
  have a100: "alpha \<le> 100" using a by (simp add: word_le_nat_alt)
  have s: "unat (100 - alpha) = 100 - unat alpha"
    using unat_sub [OF a100] by simp
  have le1: "unat alpha * unat ?m \<le> 100 * unat ?m" using a by (rule mult_le_mono1)
  have le2: "unat (100 - alpha) * unat d \<le> 100 * unat d" unfolding s by (rule mult_le_mono1) simp
  have le3: "unat d \<le> unat ?m" using m by simp
  have "unat alpha * unat ?m < 2 ^ LENGTH(64)"
    by (rule le_less_trans [OF le1]) (use m100 in simp)
  then have p1: "unat (alpha * ?m) = unat alpha * unat ?m"
    by (rule unat_mult_lem [THEN iffD1])
  have "unat (100 - alpha) * unat d < 2 ^ LENGTH(64)"
    by (rule le_less_trans [OF le2]) (use d in simp)
  then have "unat ((100 - alpha) * d) = unat (100 - alpha) * unat d"
    by (rule unat_mult_lem [THEN iffD1])
  then have p2: "unat ((100 - alpha) * d) = (100 - unat alpha) * unat d"
    by (simp only: s)
  have "unat alpha * unat ?m + (100 - unat alpha) * unat d
          \<le> unat alpha * unat ?m + (100 - unat alpha) * unat ?m"
    using le3 by simp
  also have "\<dots> = 100 * unat ?m"
    using a by (simp add: add_mult_distrib [symmetric])
  finally have "unat alpha * unat ?m + (100 - unat alpha) * unat d < 2 ^ 64"
    using m100 by simp
  then have "unat (alpha * ?m) + unat ((100 - alpha) * d) < 2 ^ LENGTH(64)"
    by (simp only: p1 p2) simp
  then have "unat (alpha * ?m + (100 - alpha) * d)
               = unat (alpha * ?m) + unat ((100 - alpha) * d)"
    by (rule unat_add_lem [THEN iffD1])
  then have p3: "unat (alpha * ?m + (100 - alpha) * d)
                   = unat alpha * unat ?m + (100 - unat alpha) * unat d"
    by (simp only: p1 p2)
  show ?thesis
    by (simp add: rolling_update_def g_uVBlankRateOfDecayMax_def unat_div p3 m)
qed

lemma rolling_update_spike:
  assumes "r \<le> d" and d: "100 * unat d < 2 ^ 64"
  shows "rolling_update alpha r d = d"
proof -
  have "alpha * d + (100 - alpha) * d = 100 * d" by (simp add: algebra_simps)
  moreover have "unat (100 :: u64) * unat d < 2 ^ LENGTH(64)" using d by simp
  then have "unat (100 * d) = unat (100 :: u64) * unat d"
    by (rule unat_mult_lem [THEN iffD1])
  then have "unat ((100 * d) div 100) = unat d" by (simp add: unat_div)
  then have "(100 * d) div 100 = d" by (simp only: word_unat_eq_iff)
  ultimately show ?thesis using assms(1)
    by (simp add: rolling_update_def g_uVBlankRateOfDecayMax_def max_def)
qed

lemma rolling_update_decay:
  assumes a: "unat alpha \<le> 100" and r: "100 * unat r < 2 ^ 64" and dr: "d \<le> r"
  shows "unat (rolling_update alpha r d) = unat d + (unat alpha * (unat r - unat d)) div 100"
proof -
  have le: "unat d \<le> unat r" using dr by (simp add: word_le_nat_alt)
  then have d: "100 * unat d < 2 ^ 64" using r by simp
  have "unat alpha * unat r + (100 - unat alpha) * unat d
          = 100 * unat d + unat alpha * (unat r - unat d)"
    using le a by (simp add: algebra_simps diff_mult_distrib2 diff_mult_distrib)
  then show ?thesis
    using rolling_update_nat [OF a r d] le by (simp add: max_def)
qed


lemma rolling_update_iterated:
  assumes a: "unat alpha \<le> 100" and r: "100 * unat r < 2 ^ 64" and dr: "d \<le> r"
  shows "d \<le> ((\<lambda>x. rolling_update alpha x d) ^^ n) r
       \<and> unat (((\<lambda>x. rolling_update alpha x d) ^^ n) r) \<le> unat r
       \<and> 100 ^ n * (unat (((\<lambda>x. rolling_update alpha x d) ^^ n) r) - unat d)
             \<le> unat alpha ^ n * (unat r - unat d)"
proof (induction n)
  case 0
  show ?case using dr by simp
next
  case (Suc n)
  let ?x = "((\<lambda>x. rolling_update alpha x d) ^^ n) r"
  let ?y = "rolling_update alpha ?x d"
  from Suc have dx: "d \<le> ?x" and xr: "unat ?x \<le> unat r"
    and ih: "100 ^ n * (unat ?x - unat d) \<le> unat alpha ^ n * (unat r - unat d)"
    by simp_all
  have x100: "100 * unat ?x < 2 ^ 64" using xr r by simp
  have le: "unat d \<le> unat ?x" using dx by (simp add: word_le_nat_alt)
  have y: "unat ?y = unat d + (unat alpha * (unat ?x - unat d)) div 100"
    using a x100 dx by (rule rolling_update_decay)
  have q: "(unat alpha * (unat ?x - unat d)) div 100 \<le> unat ?x - unat d"
  proof -
    have "unat alpha * (unat ?x - unat d) \<le> 100 * (unat ?x - unat d)"
      using a by (rule mult_le_mono1)
    then have "(unat alpha * (unat ?x - unat d)) div 100 \<le> (100 * (unat ?x - unat d)) div 100"
      by (rule div_le_mono)
    then show ?thesis by simp
  qed
  have y1: "d \<le> ?y" using y by (simp add: word_le_nat_alt)
  have y2: "unat ?y \<le> unat r" using y q le xr by linarith
  have "100 ^ Suc n * (unat ?y - unat d)
          = 100 ^ n * (100 * ((unat alpha * (unat ?x - unat d)) div 100))"
    using y by simp
  also have "\<dots> \<le> 100 ^ n * (unat alpha * (unat ?x - unat d))"
    by (rule mult_le_mono2) (rule times_div_less_eq_dividend)
  also have "\<dots> = unat alpha * (100 ^ n * (unat ?x - unat d))"
    by (simp add: mult.left_commute)
  also have "\<dots> \<le> unat alpha * (unat alpha ^ n * (unat r - unat d))"
    using ih by (rule mult_le_mono2)
  also have "\<dots> = unat alpha ^ Suc n * (unat r - unat d)"
    by (simp add: mult.assoc)
  finally have y3: "100 ^ Suc n * (unat ?y - unat d) \<le> unat alpha ^ Suc n * (unat r - unat d)" .
  show ?case using y1 y2 y3 by simp
qed

lemma rolling_update_drop:
  assumes a: "unat alpha \<le> 100" and r: "100 * unat r < 2 ^ 64" and dr: "d \<le> r"
  shows "((100 - unat alpha) * (unat r - unat d)) div 100 \<le> unat r - unat (rolling_update alpha r d)"
proof -
  let ?e = "unat r - unat d"
  have le: "unat d \<le> unat r" using dr by (simp add: word_le_nat_alt)
  have u: "unat (rolling_update alpha r d) = unat d + (unat alpha * ?e) div 100"
    using a r dr by (rule rolling_update_decay)
  have "unat alpha * ?e + (100 - unat alpha) * ?e = 100 * ?e"
    using a by (simp add: add_mult_distrib [symmetric])
  then have "(unat alpha * ?e) div 100 + ((100 - unat alpha) * ?e) div 100 \<le> ?e"
    by arith
  then show ?thesis unfolding u using le by linarith
qed

lemma rolling_clamp_offset_word: "rolling_clamp r z I + z \<le> I div 2"
  by (simp add: rolling_clamp_def)

lemma rolling_update_le: "unat (rolling_update a r d) \<le> 184467440737095516"
proof -
  have "unat (rolling_update a r d) = unat (a * max r d + (100 - a) * d) div 100"
    by (simp add: rolling_update_def g_uVBlankRateOfDecayMax_def unat_div)
  moreover have "unat (a * max r d + (100 - a) * d) < 2 ^ 64"
    using unsigned_less [of "a * max r d + (100 - a) * d"] by simp
  ultimately show ?thesis by simp
qed

lemma rolling_clamp_nat:
  assumes "unat z \<le> unat I div 2" "unat r + unat z < 2 ^ 64"
  shows "unat (rolling_clamp r z I) + unat z \<le> unat I div 2"
proof -
  let ?m = "min (r + z) (I div 2)"
  have rz: "unat (r + z) = unat r + unat z"
    using assms(2) by (simp add: unat_add_lem [THEN iffD1])
  have h: "unat (I div 2) = unat I div 2" by (simp add: unat_div)
  have "z \<le> r + z" using rz by (simp add: word_le_nat_alt)
  moreover have "z \<le> I div 2" using assms(1) h by (simp add: word_le_nat_alt)
  ultimately have zm: "z \<le> ?m" by simp
  have "unat (?m - z) = unat ?m - unat z" using zm by (rule unat_sub)
  moreover have "unat z \<le> unat ?m" using zm by (simp add: word_le_nat_alt)
  moreover have "?m \<le> I div 2" by simp
  then have "unat ?m \<le> unat (I div 2)" by (simp only: word_le_nat_alt)
  ultimately show ?thesis using h by (simp add: rolling_clamp_def)
qed

lemma rolling_clamp_le:
  assumes "unat z \<le> unat I div 2" "unat u + unat z < 2 ^ 64"
  shows "unat (rolling_clamp u z I) \<le> unat u"
proof -
  let ?m = "min (u + z) (I div 2)"
  have uz: "unat (u + z) = unat u + unat z"
    using assms(2) by (simp add: unat_add_lem [THEN iffD1])
  have h: "unat (I div 2) = unat I div 2" by (simp add: unat_div)
  have "z \<le> u + z" using uz by (simp add: word_le_nat_alt)
  moreover have "z \<le> I div 2" using assms(1) h by (simp add: word_le_nat_alt)
  ultimately have zm: "z \<le> ?m" by simp
  have s: "unat (?m - z) = unat ?m - unat z" using zm by (rule unat_sub)
  have "?m \<le> u + z" by simp
  then have "unat ?m \<le> unat (u + z)" by (simp only: word_le_nat_alt)
  then show ?thesis using s uz by (simp add: rolling_clamp_def)
qed

lemma rolling_pass_step:
  assumes a: "unat alpha \<le> 100" and z: "unat z \<le> unat I div 2"
    and d: "100 * unat d < 2 ^ 64" and x: "100 * unat x < 2 ^ 64"
  shows "unat (rolling_clamp (rolling_update alpha x d) z I) \<le> max (unat x) (unat d)
       \<and> 100 * (unat (rolling_clamp (rolling_update alpha x d) z I) - unat d)
             \<le> unat alpha * (unat x - unat d)"
proof -
  let ?u = "rolling_update alpha x d"
  have "unat I < 2 ^ 64" using unsigned_less [of I] by simp
  then have "unat z < 2 ^ 63" using z by simp
  then have "unat ?u + unat z < 2 ^ 64" using rolling_update_le [of alpha x d] by simp
  with z have c: "unat (rolling_clamp ?u z I) \<le> unat ?u" by (rule rolling_clamp_le)
  have u: "unat ?u \<le> max (unat x) (unat d) \<and> 100 * (unat ?u - unat d) \<le> unat alpha * (unat x - unat d)"
  proof (cases "d \<le> x")
    case True
    have y: "unat ?u = unat d + (unat alpha * (unat x - unat d)) div 100"
      using a x True by (rule rolling_update_decay)
    have "unat alpha * (unat x - unat d) \<le> 100 * (unat x - unat d)"
      using a by (rule mult_le_mono1)
    then have "(unat alpha * (unat x - unat d)) div 100 \<le> (100 * (unat x - unat d)) div 100"
      by (rule div_le_mono)
    then have q: "(unat alpha * (unat x - unat d)) div 100 \<le> unat x - unat d" by simp
    have le: "unat d \<le> unat x" using True by (simp add: word_le_nat_alt)
    have "100 * ((unat alpha * (unat x - unat d)) div 100) \<le> unat alpha * (unat x - unat d)"
      by (rule times_div_less_eq_dividend)
    then show ?thesis using y q le by simp
  next
    case False
    then have "x \<le> d" by simp
    then have "?u = d" using d by (rule rolling_update_spike)
    then show ?thesis by simp
  qed
  from c u show ?thesis by (auto intro: order_trans diff_le_mono mult_le_mono2)
qed

lemma rolling_pass_iterated:
  assumes a: "unat alpha \<le> 100" and z: "unat z \<le> unat I div 2"
    and r: "100 * unat r < 2 ^ 64" and dr: "d \<le> r"
  shows "unat (((\<lambda>x. rolling_clamp (rolling_update alpha x d) z I) ^^ n) r) \<le> unat r
       \<and> 100 ^ n * (unat (((\<lambda>x. rolling_clamp (rolling_update alpha x d) z I) ^^ n) r) - unat d)
             \<le> unat alpha ^ n * (unat r - unat d)"
proof (induction n)
  case 0
  show ?case by simp
next
  case (Suc n)
  let ?x = "((\<lambda>x. rolling_clamp (rolling_update alpha x d) z I) ^^ n) r"
  let ?y = "rolling_clamp (rolling_update alpha ?x d) z I"
  from Suc have xr: "unat ?x \<le> unat r"
    and ih: "100 ^ n * (unat ?x - unat d) \<le> unat alpha ^ n * (unat r - unat d)"
    by simp_all
  have le: "unat d \<le> unat r" using dr by (simp add: word_le_nat_alt)
  have d100: "100 * unat d < 2 ^ 64" using le r by simp
  have x100: "100 * unat ?x < 2 ^ 64" using xr r by simp
  from rolling_pass_step [OF a z d100 x100]
  have s1: "unat ?y \<le> max (unat ?x) (unat d)"
    and s2: "100 * (unat ?y - unat d) \<le> unat alpha * (unat ?x - unat d)"
    by simp_all
  have y2: "unat ?y \<le> unat r" using s1 xr le by simp
  have "100 ^ Suc n * (unat ?y - unat d) = 100 ^ n * (100 * (unat ?y - unat d))"
    by simp
  also have "\<dots> \<le> 100 ^ n * (unat alpha * (unat ?x - unat d))"
    using s2 by (rule mult_le_mono2)
  also have "\<dots> = unat alpha * (100 ^ n * (unat ?x - unat d))"
    by (simp add: mult.left_commute)
  also have "\<dots> \<le> unat alpha * (unat alpha ^ n * (unat r - unat d))"
    using ih by (rule mult_le_mono2)
  also have "\<dots> = unat alpha ^ Suc n * (unat r - unat d)"
    by (simp add: mult.assoc)
  finally have y3: "100 ^ Suc n * (unat ?y - unat d) \<le> unat alpha ^ Suc n * (unat r - unat d)" .
  show ?case using y2 y3 by simp
qed

text \<open>
  C3 as stated fails where a product of line 72 wraps. A draw time of \<open>2 ^ 62\<close> against
  an estimate of 3 ms sets the estimate to 0, not upward. With the estimate
  \<open>2 ^ 64 - 333334\<close> that a pass at 300 Hz with the red zone of 2 ms leaves, and a draw
  time of 3 ms below it, the update gives 184467440736995515, which is not
  \<open>alpha * excess / 100\<close> above the draw time, and the clamp of line 76 puts the estimate
  back to \<open>2 ^ 64 - 333334\<close>: it does not decay.
\<close>

theorem rolling_update_counterexample:
  "(3000000 :: u64) \<le> 4611686018427387904
   \<and> rolling_update 93 3000000 4611686018427387904 = 0
   \<and> (3000000 :: u64) < 18446744073709218282
   \<and> rolling_update 93 18446744073709218282 3000000 = 184467440736995515
   \<and> unat (rolling_update 93 18446744073709218282 3000000) - unat (3000000 :: u64)
       \<noteq> (93 * (unat (18446744073709218282 :: u64) - unat (3000000 :: u64))) div 100
   \<and> rolling_clamp (rolling_update 93 18446744073709218282 3000000) 2000000 3333333
       = 18446744073709218282"
  by (simp add: rolling_update_def rolling_clamp_def g_uVBlankRateOfDecayMax_def)

text \<open>
  C3, amended. Line 72 is \<open>(alpha * max(rollingMax, drawTime) + (100 - alpha) * drawTime) / 100\<close>
  on 64-bit unsigned integers, and it is the same number as this expression over the
  integers, with a rounding-down division, while no product wraps (a decay percentage of
  at most 100, and 100 times the estimate and 100 times the draw time below \<open>2 ^ 64\<close>).
  A draw time at or above the estimate, with 100 times the draw time below \<open>2 ^ 64\<close>,
  becomes the new estimate in that one pass. A draw time below an estimate whose product
  with 100 is below \<open>2 ^ 64\<close> leaves the excess over it at \<open>alpha * excess / 100\<close>,
  rounded down: the estimate drops by at least the fraction \<open>(100 - alpha) / 100\<close> of the
  excess, and after \<open>n\<close> updates with the same draw time the excess is at most
  \<open>(alpha / 100) ^ n\<close> times the first one. The same bound holds after \<open>n\<close> whole
  passes, the update followed by the clamp of line 76, when the red zone is at most half
  of the refresh interval.
\<close>

theorem rolling_update_tracks_and_decays:
  "rolling_update alpha r d = (alpha * max r d + (100 - alpha) * d) div 100
   \<and> (unat alpha \<le> 100 \<and> 100 * unat r < 2 ^ 64 \<and> 100 * unat d < 2 ^ 64 \<longrightarrow>
        unat (rolling_update alpha r d)
          = (unat alpha * max (unat r) (unat d) + (100 - unat alpha) * unat d) div 100)
   \<and> (r \<le> d \<and> 100 * unat d < 2 ^ 64 \<longrightarrow> rolling_update alpha r d = d)
   \<and> (d < r \<and> unat alpha \<le> 100 \<and> 100 * unat r < 2 ^ 64 \<longrightarrow>
        unat (rolling_update alpha r d) - unat d = (unat alpha * (unat r - unat d)) div 100
      \<and> ((100 - unat alpha) * (unat r - unat d)) div 100
            \<le> unat r - unat (rolling_update alpha r d)
      \<and> (\<forall>n. unat d \<le> unat (((\<lambda>x. rolling_update alpha x d) ^^ n) r)
             \<and> 100 ^ n * (unat (((\<lambda>x. rolling_update alpha x d) ^^ n) r) - unat d)
                   \<le> unat alpha ^ n * (unat r - unat d)))
   \<and> (d < r \<and> unat alpha \<le> 100 \<and> 100 * unat r < 2 ^ 64 \<and> unat z \<le> unat I div 2 \<longrightarrow>
        (\<forall>n. 100 ^ n
               * (unat (((\<lambda>x. rolling_clamp (rolling_update alpha x d) z I) ^^ n) r) - unat d)
             \<le> unat alpha ^ n * (unat r - unat d)))"
proof (intro conjI impI allI)
  show "rolling_update alpha r d = (alpha * max r d + (100 - alpha) * d) div 100"
    by (simp add: rolling_update_def g_uVBlankRateOfDecayMax_def)
next
  assume "unat alpha \<le> 100 \<and> 100 * unat r < 2 ^ 64 \<and> 100 * unat d < 2 ^ 64"
  then show "unat (rolling_update alpha r d)
          = (unat alpha * max (unat r) (unat d) + (100 - unat alpha) * unat d) div 100"
    by (intro rolling_update_nat) simp_all
next
  assume "r \<le> d \<and> 100 * unat d < 2 ^ 64"
  then show "rolling_update alpha r d = d" by (intro rolling_update_spike) simp_all
next
  assume "d < r \<and> unat alpha \<le> 100 \<and> 100 * unat r < 2 ^ 64"
  then have h: "unat alpha \<le> 100" "100 * unat r < 2 ^ 64" "d \<le> r" by auto
  from h show "unat (rolling_update alpha r d) - unat d
                 = (unat alpha * (unat r - unat d)) div 100"
    by (simp add: rolling_update_decay)
  from h show "((100 - unat alpha) * (unat r - unat d)) div 100
                 \<le> unat r - unat (rolling_update alpha r d)"
    by (rule rolling_update_drop)
  fix n
  from h show "unat d \<le> unat (((\<lambda>x. rolling_update alpha x d) ^^ n) r)"
    using rolling_update_iterated [of alpha r d n] by (simp add: word_le_nat_alt)
  from h show "100 ^ n * (unat (((\<lambda>x. rolling_update alpha x d) ^^ n) r) - unat d)
                 \<le> unat alpha ^ n * (unat r - unat d)"
    using rolling_update_iterated [of alpha r d n] by simp
next
  fix n
  assume "d < r \<and> unat alpha \<le> 100 \<and> 100 * unat r < 2 ^ 64 \<and> unat z \<le> unat I div 2"
  then have h: "unat alpha \<le> 100" "unat z \<le> unat I div 2" "100 * unat r < 2 ^ 64" "d \<le> r"
    by auto
  from rolling_pass_iterated [OF h, of n]
  show "100 ^ n * (unat (((\<lambda>x. rolling_clamp (rolling_update alpha x d) z I) ^^ n) r) - unat d)
          \<le> unat alpha ^ n * (unat r - unat d)"
    by simp
qed

theorem rolling_update_tracks_and_decays_witness:
  "unat (93 :: u64) \<le> 100 \<and> 100 * unat (9000000 :: u64) < 2 ^ 64
   \<and> 100 * unat (3000000 :: u64) < 2 ^ 64 \<and> (3000000 :: u64) < 9000000
   \<and> unat (2000000 :: u64) \<le> unat (16666666 :: u64) div 2
   \<and> unat (rolling_update 93 9000000 3000000) = 8580000
   \<and> unat (rolling_update 93 9000000 3000000) - 3000000 = 5580000
   \<and> (7 * 6000000) div 100 \<le> 9000000 - unat (rolling_update 93 9000000 3000000)
   \<and> 100 * (unat (rolling_update 93 9000000 3000000) - 3000000) \<le> 93 * 6000000
   \<and> rolling_update 93 3000000 9000000 = 9000000
   \<and> 100 * (unat (rolling_clamp (rolling_update 93 9000000 3000000) 2000000 16666666)
              - 3000000) \<le> 93 * 6000000
   \<and> rolling_clamp (rolling_update 93 9000000 3000000) 2000000 16666666 = 6333333"
proof -
  note t = rolling_update_tracks_and_decays [of 93 9000000 3000000 2000000 16666666]
  have "\<forall>n. 100 ^ n
          * (unat (((\<lambda>x. rolling_clamp (rolling_update 93 x 3000000) 2000000 16666666) ^^ n)
                     9000000) - unat (3000000 :: u64))
        \<le> unat (93 :: u64) ^ n * (unat (9000000 :: u64) - unat (3000000 :: u64))"
    using t by simp
  then have "100 ^ Suc 0
          * (unat (((\<lambda>x. rolling_clamp (rolling_update 93 x 3000000) 2000000 16666666) ^^ Suc 0)
                     9000000) - unat (3000000 :: u64))
        \<le> unat (93 :: u64) ^ Suc 0 * (unat (9000000 :: u64) - unat (3000000 :: u64))"
    by (rule spec)
  then have c: "100 * (unat (rolling_clamp (rolling_update 93 9000000 3000000) 2000000 16666666)
              - 3000000) \<le> 93 * 6000000"
    by simp
  have v: "rolling_clamp (rolling_update 93 9000000 3000000) 2000000 16666666 = 6333333"
    by (simp add: rolling_update_def rolling_clamp_def g_uVBlankRateOfDecayMax_def)
  from t rolling_update_tracks_and_decays [of 93 3000000 9000000] c v
  show ?thesis by simp
qed

section \<open>The clamp of the rolling estimate\<close>

text \<open>
  C2 as stated, with the sum taken over the integers, fails when the red zone is larger
  than half of the refresh interval: at 300 Hz (an interval of 3333333 ns) with the red
  zone of 2 ms the subtraction of line 76 wraps, and the estimate becomes
  \<open>2 ^ 64 - 333334\<close>. The whole pass at 300 Hz, started from the estimate of 3 ms,
  ends with this estimate and with the offset 1666666.
\<close>

theorem rolling_clamp_counterexample:
  "rolling_clamp (rolling_update 93 3000000 3000000) 2000000 3333333 = 18446744073709218282
   \<and> \<not> unat (rolling_clamp (rolling_update 93 3000000 3000000) 2000000 3333333)
           + unat (2000000 :: u64) \<le> unat (3333333 :: u64) div 2
   \<and> vblankThreadRun_pass
         \<lparr>g_uVBlankRateOfDecayPercentage = 93, g_nNestedRefresh = 0, g_nOutputRefresh = 300,
          g_uVblankDrawTimeNS = 3000000, g_uVblankDrawBufferRedZoneNS = 2000000,
          g_lastVblank = 1000000000, now_ns = 1000500000\<rparr> 3000000
       = Some \<lparr>rollingMaxDrawTime = 18446744073709218282, offset_ns = 1666666,
               sleep_until_arg = 1001666667, sleep_for_arg = 2666666\<rparr>"
  by (simp add: rolling_clamp_def rolling_update_def g_uVBlankRateOfDecayMax_def
      vblankThreadRun_pass_def current_refresh_def nsec_per_def vblank_targetPoint_def
      advance_targetPoint.simps)

text \<open>
  C2, amended. For every decay percentage, draw time, red zone and refresh interval the
  offset \<open>rollingMax + redZone\<close> that line 78 computes, in wrapping 64-bit arithmetic, is
  at most half of the interval. When the red zone is at most half of the interval the
  same holds for the sum over the integers: nothing wraps in the clamp.
\<close>

theorem rolling_clamp_offset_bound:
  "rolling_clamp (rolling_update alpha r d) z I + z \<le> I div 2
   \<and> (unat z \<le> unat I div 2 \<longrightarrow>
        unat (rolling_clamp (rolling_update alpha r d) z I) + unat z \<le> unat I div 2)"
proof (intro conjI impI)
  show "rolling_clamp (rolling_update alpha r d) z I + z \<le> I div 2"
    by (rule rolling_clamp_offset_word)
next
  assume z: "unat z \<le> unat I div 2"
  have "unat I < 2 ^ 64" using unsigned_less [of I] by simp
  then have "unat z < 2 ^ 63" using z by simp
  then have "unat (rolling_update alpha r d) + unat z < 2 ^ 64"
    using rolling_update_le [of alpha r d] by simp
  with z show "unat (rolling_clamp (rolling_update alpha r d) z I) + unat z \<le> unat I div 2"
    by (rule rolling_clamp_nat)
qed

theorem rolling_clamp_offset_bound_witness:
  "unat (2000000 :: u64) \<le> unat (16666666 :: u64) div 2
   \<and> unat (rolling_clamp (rolling_update 93 3000000 9000000) 2000000 16666666)
         + unat (2000000 :: u64) \<le> unat (16666666 :: u64) div 2"
  using rolling_clamp_offset_bound [of 93 3000000 9000000 2000000 16666666]
  by simp

section \<open>Starting the predictor\<close>

text \<open>
  C8. \<open>pipe2\<close> hands out non-negative descriptors. Then \<open>vblank_init\<close> returns -1
  exactly when \<open>pipe2\<close> fails, and in that case leaves every global as it was: the last
  vblank time is not written and no thread is started. When \<open>pipe2\<close> succeeds it stores
  the clock reading as the last vblank time, starts the thread and returns the read end.
\<close>

theorem vblank_init_fails_iff_pipe_fails:
  assumes "\<forall>rd wr. p = pipe2_ok rd wr \<longrightarrow> 0 \<le> sint rd"
  shows "(fst (vblank_init p now g) = - 1 \<longleftrightarrow> p = pipe2_failed)
       \<and> (p = pipe2_failed \<longrightarrow> snd (vblank_init p now g) = g)
       \<and> (\<forall>rd wr. p = pipe2_ok rd wr \<longrightarrow>
             fst (vblank_init p now g) = rd
           \<and> g_vblankPipe (snd (vblank_init p now g)) = (rd, wr)
           \<and> g_lastVblank_atomic (snd (vblank_init p now g)) = now
           \<and> vblankThread_started (snd (vblank_init p now g)))"
proof (cases p)
  case pipe2_failed
  then show ?thesis by (simp add: vblank_init_def)
next
  case (pipe2_ok rd wr)
  with assms have "0 \<le> sint rd" by simp
  then have "rd \<noteq> - 1" by auto
  with pipe2_ok show ?thesis by (simp add: vblank_init_def)
qed

theorem vblank_init_fails_iff_pipe_fails_witness:
  "fst (vblank_init (pipe2_ok 5 6) 1000 \<lparr>g_vblankPipe = (0, 0), g_lastVblank_atomic = 0,
       vblankThread_started = False\<rparr>) = 5
   \<and> g_lastVblank_atomic (snd (vblank_init (pipe2_ok 5 6) 1000 \<lparr>g_vblankPipe = (0, 0),
       g_lastVblank_atomic = 0, vblankThread_started = False\<rparr>)) = 1000
   \<and> vblankThread_started (snd (vblank_init (pipe2_ok 5 6) 1000 \<lparr>g_vblankPipe = (0, 0),
       g_lastVblank_atomic = 0, vblankThread_started = False\<rparr>))
   \<and> fst (vblank_init (pipe2_ok 5 6) 1000 \<lparr>g_vblankPipe = (0, 0), g_lastVblank_atomic = 0,
       vblankThread_started = False\<rparr>) \<noteq> - 1
   \<and> vblank_init pipe2_failed 1000 \<lparr>g_vblankPipe = (0, 0), g_lastVblank_atomic = 0,
       vblankThread_started = False\<rparr>
       = (- 1, \<lparr>g_vblankPipe = (0, 0), g_lastVblank_atomic = 0, vblankThread_started = False\<rparr>)"
  using vblank_init_fails_iff_pipe_fails [of "pipe2_ok 5 6" 1000
      "\<lparr>g_vblankPipe = (0, 0), g_lastVblank_atomic = 0, vblankThread_started = False\<rparr>"]
    vblank_init_fails_iff_pipe_fails [of pipe2_failed 1000
      "\<lparr>g_vblankPipe = (0, 0), g_lastVblank_atomic = 0, vblankThread_started = False\<rparr>"]
  by (simp add: prod_eq_iff)



section \<open>The wake time of the predictor\<close>

lemma advance_targetPoint_least:
  assumes I: "I \<noteq> 0" and nw: "unat now + unat I \<le> 2 ^ 64"
  shows "\<exists>k. advance_targetPoint tp now I = Some (tp + of_nat k * I)
            \<and> unat (tp + of_nat k * I) = unat tp + k * unat I
            \<and> unat now \<le> unat tp + k * unat I
            \<and> (\<forall>j<k. unat tp + j * unat I < unat now)"
proof (induction "unat now - unat tp" arbitrary: tp rule: less_induct)
  case less
  show ?case
  proof (cases "tp < now")
    case False
    then have "advance_targetPoint tp now I = Some tp"
      by (subst advance_targetPoint.simps) simp
    moreover have "unat now \<le> unat tp" using False by (simp add: word_less_nat_alt)
    ultimately show ?thesis by (intro exI [of _ 0]) simp
  next
    case True
    then have lt: "unat tp < unat now" by (simp add: word_less_nat_alt)
    have "unat tp + unat I < 2 ^ LENGTH(64)" using lt nw by simp
    then have st: "unat (tp + I) = unat tp + unat I" by (rule unat_add_lem [THEN iffD1])
    have Ipos: "0 < unat I" using I by (simp add: unat_gt_0)
    have "unat now - unat (tp + I) < unat now - unat tp" using st lt Ipos by simp
    from less [OF this] obtain k where
      k1: "advance_targetPoint (tp + I) now I = Some (tp + I + of_nat k * I)"
      and k2: "unat (tp + I + of_nat k * I) = unat (tp + I) + k * unat I"
      and k3: "unat now \<le> unat (tp + I) + k * unat I"
      and k4: "\<forall>j<k. unat (tp + I) + j * unat I < unat now"
      by blast
    have e: "tp + I + of_nat k * I = tp + of_nat (Suc k) * I" by (simp add: algebra_simps)
    have "advance_targetPoint tp now I = Some (tp + of_nat (Suc k) * I)"
      using True k1 e by (subst advance_targetPoint.simps) simp
    moreover have "unat (tp + of_nat (Suc k) * I) = unat tp + Suc k * unat I"
      using k2 st e by simp
    moreover have "unat now \<le> unat tp + Suc k * unat I" using k3 st by simp
    moreover have "\<forall>j<Suc k. unat tp + j * unat I < unat now"
    proof (intro allI impI)
      fix j assume j: "j < Suc k"
      show "unat tp + j * unat I < unat now"
      proof (cases j)
        case 0
        then show ?thesis using lt by simp
      next
        case (Suc j')
        then have "j' < k" using j by simp
        with k4 have "unat (tp + I) + j' * unat I < unat now" by blast
        then show ?thesis using st Suc by simp
      qed
    qed
    ultimately show ?thesis by blast
  qed
qed

text \<open>
  C5, amended. The loop starts one interval after \<open>g_lastVblank - offset\<close> and only adds
  intervals. For an interval that is not 0, an offset that does not exceed the last vblank
  time, and times far enough from \<open>2 ^ 64\<close> that no addition wraps, the loop ends and the
  wake time is \<open>g_lastVblank - offset + k * nsecInterval\<close> for some \<open>k \<ge> 1\<close>, is not
  before \<open>now\<close>, and is the smallest such value with \<open>k \<ge> 1\<close>.
\<close>

theorem vblank_targetPoint_least:
  assumes I: "I \<noteq> 0" and ol: "unat off \<le> unat L"
    and st: "unat L - unat off + unat I < 2 ^ 64" and nw: "unat now + unat I \<le> 2 ^ 64"
  shows "\<exists>w k. vblank_targetPoint L off I now = Some w \<and> 1 \<le> k
            \<and> unat w = unat L - unat off + k * unat I
            \<and> unat now \<le> unat w
            \<and> (\<forall>j. 1 \<le> j \<and> unat now \<le> unat L - unat off + j * unat I
                   \<longrightarrow> unat w \<le> unat L - unat off + j * unat I)"
proof -
  let ?b = "unat L - unat off"
  have "off \<le> L" using ol by (simp add: word_le_nat_alt)
  then have b: "unat (L - off) = ?b" by (rule unat_sub)
  have "unat (L - off) + unat I < 2 ^ LENGTH(64)" using st b by simp
  then have t0: "unat (L - off + I) = ?b + unat I"
    using b by (simp add: unat_add_lem [THEN iffD1])
  from advance_targetPoint_least [OF I nw, of "L - off + I"] obtain k where
    k1: "advance_targetPoint (L - off + I) now I = Some (L - off + I + of_nat k * I)"
    and k2: "unat (L - off + I + of_nat k * I) = unat (L - off + I) + k * unat I"
    and k3: "unat now \<le> unat (L - off + I) + k * unat I"
    and k4: "\<forall>j<k. unat (L - off + I) + j * unat I < unat now"
    by blast
  let ?w = "L - off + I + of_nat k * I"
  have w: "unat ?w = ?b + Suc k * unat I" using k2 t0 by simp
  have "vblank_targetPoint L off I now = Some ?w"
    using k1 by (simp add: vblank_targetPoint_def)
  moreover have "unat now \<le> unat ?w" using k3 k2 by simp
  moreover have "\<forall>j. 1 \<le> j \<and> unat now \<le> ?b + j * unat I \<longrightarrow> unat ?w \<le> ?b + j * unat I"
  proof (intro allI impI)
    fix j assume j: "1 \<le> j \<and> unat now \<le> ?b + j * unat I"
    then obtain j' where j': "j = Suc j'" by (cases j) auto
    have "\<not> j' < k"
    proof
      assume "j' < k"
      with k4 have "unat (L - off + I) + j' * unat I < unat now" by blast
      then show False using j j' t0 by simp
    qed
    then have "Suc k \<le> j" using j' by simp
    then have "Suc k * unat I \<le> j * unat I" by (rule mult_le_mono1)
    then show "unat ?w \<le> ?b + j * unat I" using w by simp
  qed
  ultimately show ?thesis using w by (intro exI [of _ ?w] exI [of _ "Suc k"]) simp
qed

text \<open>The offset of a pass is at most half of the refresh interval of that pass.\<close>

lemma vblankThreadRun_pass_offset:
  assumes "vblankThreadRun_pass e r = Some p"
    and "nsec_per (current_refresh (g_nNestedRefresh e) (g_nOutputRefresh e)) = Some I"
  shows "offset_ns p \<le> I div 2"
  using assms rolling_clamp_offset_word
  by (auto simp add: vblankThreadRun_pass_def Let_def split: option.splits)

theorem vblank_targetPoint_least_witness:
  "(16666666 :: u64) \<noteq> 0 \<and> unat (5000000 :: u64) \<le> unat (1000000000 :: u64)
   \<and> unat (1000000000 :: u64) - unat (5000000 :: u64) + unat (16666666 :: u64) < 2 ^ 64
   \<and> unat (1020000000 :: u64) + unat (16666666 :: u64) \<le> 2 ^ 64
   \<and> vblank_targetPoint 1000000000 5000000 16666666 1020000000 = Some 1028333332
   \<and> (\<exists>w k. vblank_targetPoint 1000000000 5000000 16666666 1020000000 = Some w \<and> 1 \<le> k
          \<and> unat w = 995000000 + k * 16666666 \<and> 1020000000 \<le> unat w)"
proof -
  have "\<exists>w k. vblank_targetPoint 1000000000 5000000 16666666 1020000000 = Some w \<and> 1 \<le> k
          \<and> unat w = 995000000 + k * 16666666 \<and> 1020000000 \<le> unat w"
    using vblank_targetPoint_least [of 16666666 5000000 1000000000 1020000000]
    by simp blast
  moreover have "vblank_targetPoint 1000000000 5000000 16666666 1020000000 = Some 1028333332"
    by (simp add: vblank_targetPoint_def advance_targetPoint.simps)
  ultimately show ?thesis by simp
qed

text \<open>
  C5 as stated fails when \<open>g_lastVblank - offset\<close> is not before \<open>now\<close>. With a decay
  percentage, a draw time and a red zone of 0 the offset is 0; with the last vblank at
  \<open>now = 1000000000\<close> and 60 Hz the pass sleeps until 1016666666, although
  \<open>g_lastVblank - offset + 0 * nsecInterval = 1000000000\<close> is not before \<open>now\<close> and is
  smaller.
\<close>

theorem vblank_targetPoint_counterexample:
  "vblankThreadRun_pass
     \<lparr>g_uVBlankRateOfDecayPercentage = 0, g_nNestedRefresh = 0, g_nOutputRefresh = 60,
      g_uVblankDrawTimeNS = 0, g_uVblankDrawBufferRedZoneNS = 0,
      g_lastVblank = 1000000000, now_ns = 1000000000\<rparr> 3000000
   = Some \<lparr>rollingMaxDrawTime = 0, offset_ns = 0, sleep_until_arg = 1016666666,
           sleep_for_arg = 1000000\<rparr>
   \<and> vblank_targetPoint 1000000000 0 16666666 1000000000 = Some 1016666666
   \<and> (1000000000 :: int) \<le> 1000000000 - 0 + 0 * 16666666
   \<and> (1000000000 :: int) - 0 + 0 * 16666666 < 1016666666"
  by (simp add: vblankThreadRun_pass_def current_refresh_def nsec_per_def rolling_update_def
      rolling_clamp_def g_uVBlankRateOfDecayMax_def vblank_targetPoint_def
      advance_targetPoint.simps)

section \<open>The deviation of the limiter\<close>

lemma nsec_per_le: "nsec_per n = Some tI \<Longrightarrow> unat tI \<le> 1000000000"
  by (auto simp add: nsec_per_def unat_div split: if_splits)

lemma deviation_wrap:
  assumes t: "unat (tI :: u64) \<le> 1000000000" and lt: "unat ft + unat dev < unat tI"
  shows "unat (dev + (ft - tI)) = 2 ^ 64 - (unat tI - (unat ft + unat dev))"
    and "min (dev + (ft - tI)) (tI div 16) = tI div 16"
proof -
  have "unat dev + unat ft < 2 ^ LENGTH(64)" using t lt by simp
  then have s: "unat (dev + ft) = unat dev + unat ft" by (rule unat_add_lem [THEN iffD1])
  have e: "dev + (ft - tI) = dev + ft - tI" by simp
  have "unat (dev + ft - tI) = unat (dev + ft) + 2 ^ 64 - unat tI"
    using lt s by (simp add: unat_sub_if')
  then show w: "unat (dev + (ft - tI)) = 2 ^ 64 - (unat tI - (unat ft + unat dev))"
    using lt s t unfolding e by simp
  have "unat (tI div 16) \<le> unat (dev + (ft - tI))"
    using t lt unfolding w by (simp add: unat_div)
  then have "tI div 16 \<le> dev + (ft - tI)" by (simp only: word_le_nat_alt)
  then show "min (dev + (ft - tI)) (tI div 16) = tI div 16" by (simp add: min_def)
qed

lemma pass_deviation:
  assumes "fpslimitThreadRun_pass e n fi s = Some s'"
  shows "nsec_per n = Some (targetInterval s') \<and> deviation s' \<le> targetInterval s' div 16"
  using assms
  by (auto simp add: fpslimitThreadRun_pass_def release_commit_def Let_def
      split: option.splits if_splits)

lemma step_deviation:
  assumes "step ev s = Some s'" and "deviation s \<le> targetInterval s div 16"
  shows "deviation s' \<le> targetInterval s' div 16"
proof (cases ev)
  case (SetTarget n)
  with assms show ?thesis by (auto simp add: fpslimit_set_target_def)
next
  case (MarkFrame t)
  with assms show ?thesis by (auto simp add: fpslimit_mark_frame_def)
next
  case Wake
  with assms show ?thesis by (auto split: if_splits)
next
  case (Pass e)
  with assms(1) obtain n fi s1 where "fpslimitThreadRun_pass e n fi s = Some s1"
    and "s' = s1\<lparr>snapshot := None\<rparr>"
    by (auto split: option.splits)
  then show ?thesis using pass_deviation [of e n fi s s1] by simp
qed

lemma run_deviation:
  assumes "run evs s = Some s'" and "deviation s \<le> targetInterval s div 16"
  shows "deviation s' \<le> targetInterval s' div 16"
  using assms
proof (induction evs arbitrary: s)
  case Nil
  then show ?case by simp
next
  case (Cons ev evs)
  from Cons.prems(1) obtain s1 where s1: "step ev s = Some s1" and r: "run evs s1 = Some s'"
    by (auto split: option.splits)
  from s1 Cons.prems(2) have "deviation s1 \<le> targetInterval s1 div 16" by (rule step_deviation)
  with r show ?case by (rule Cons.IH)
qed

lemma pass_sleep_deviation:
  assumes p: "fpslimitThreadRun_pass e n fi s = Some s'"
    and tI: "nsec_per n = Some tI"
    and br: "\<not> tI * 103 - deviation s * 100 < (clock_t1 e - lastCommitReleased s) * 100"
  shows "deviation s' = min (deviation s + (clock_woken e - lastCommitReleased s - tI)) (tI div 16)"
  using assms
  by (auto simp add: fpslimitThreadRun_pass_def release_commit_def Let_def
      split: option.splits if_splits)

text \<open>
  A pass ends when the frame-callback decision is defined, the target interval is not 0
  (a target between 1 and 1000000000) and \<open>now\<close> plus the interval does not wrap.
\<close>

lemma fpslimitThreadRun_pass_returns:
  assumes u: "fpslimit_use_frame_callbacks_for_focus_window (outputRefresh e) n 0 = Some b"
    and t: "nsec_per n = Some tI" and z: "tI \<noteq> 0"
    and nw: "unat (clock_now e) + unat tI \<le> 2 ^ 64"
  shows "\<exists>s'. fpslimitThreadRun_pass e n fi s = Some s'"
proof -
  from advance_targetPoint_least [OF z nw]
  obtain w where "advance_targetPoint
      (clock_now e + tI - deviation s - (clock_t1 e - lastCommitReleased s)) (clock_now e) tI = Some w"
    by blast
  then show ?thesis using u t
    by (simp add: fpslimitThreadRun_pass_def Let_def)
qed

text \<open>
  C4. A pass that ends leaves the deviation at most \<open>targetInterval / 16\<close>, where
  \<open>targetInterval\<close> is \<open>1000000000 / nTargetFPS\<close> for the target of its snapshot. So
  after any steps from the initial state, where the deviation is 0, the deviation is at
  most one sixteenth of the interval of the last pass.
\<close>

theorem deviation_bounded:
  "(run evs (fpslimit_init ta tb tc) = Some s \<longrightarrow> deviation s \<le> targetInterval s div 16)
   \<and> (fpslimitThreadRun_pass e n fi s0 = Some s1 \<longrightarrow>
        nsec_per n = Some (targetInterval s1) \<and> deviation s1 \<le> targetInterval s1 div 16)"
proof (intro conjI impI)
  assume "run evs (fpslimit_init ta tb tc) = Some s"
  moreover have "deviation (fpslimit_init ta tb tc) \<le> targetInterval (fpslimit_init ta tb tc) div 16"
    by (simp add: fpslimit_init_def)
  ultimately show "deviation s \<le> targetInterval s div 16" by (rule run_deviation)
next
  assume p: "fpslimitThreadRun_pass e n fi s0 = Some s1"
  then show "nsec_per n = Some (targetInterval s1)" by (simp add: pass_deviation)
  from p show "deviation s1 \<le> targetInterval s1 div 16" by (simp add: pass_deviation)
qed

theorem deviation_bounded_witness:
  "run [SetTarget 30, MarkFrame 5000, Wake,
        Pass \<lparr>outputRefresh = 60, clock_t1 = 2000000, clock_now = 2000100,
              clock_woken = 33334500, clock_released = 33334600\<rparr>] (fpslimit_init 0 0 1000)
     = Some \<lparr>g_nFpsLimitTargetFPS = 30,
         g_FrameInfo = \<lparr>lastFrame = 0, currentFrame = 5000, frameCount = 1\<rparr>,
         deviation = 167, lastFrameCount = 1, lastCommitReleased = 33334600,
         targetInterval = 33333333, snapshot = None, release_commits = 1, frame_dones = 2,
         nudges = 1, processed = [1]\<rparr>
   \<and> (167 :: u64) \<le> 33333333 div 16
   \<and> fpslimitThreadRun_pass
        \<lparr>outputRefresh = 60, clock_t1 = 2000000, clock_now = 2000100,
         clock_woken = 33334500, clock_released = 33334600\<rparr> 30
        \<lparr>lastFrame = 0, currentFrame = 5000, frameCount = 1\<rparr> (fpslimit_init 0 0 1000)
     = Some \<lparr>g_nFpsLimitTargetFPS = 0,
         g_FrameInfo = \<lparr>lastFrame = 0, currentFrame = 0, frameCount = 0\<rparr>,
         deviation = 167, lastFrameCount = 1, lastCommitReleased = 33334600,
         targetInterval = 33333333, snapshot = None, release_commits = 1, frame_dones = 2,
         nudges = 1, processed = [1]\<rparr>
   \<and> nsec_per 30 = Some 33333333"
proof -
  have r: "run [SetTarget 30, MarkFrame 5000, Wake,
        Pass \<lparr>outputRefresh = 60, clock_t1 = 2000000, clock_now = 2000100,
              clock_woken = 33334500, clock_released = 33334600\<rparr>] (fpslimit_init 0 0 1000)
     = Some \<lparr>g_nFpsLimitTargetFPS = 30,
         g_FrameInfo = \<lparr>lastFrame = 0, currentFrame = 5000, frameCount = 1\<rparr>,
         deviation = 167, lastFrameCount = 1, lastCommitReleased = 33334600,
         targetInterval = 33333333, snapshot = None, release_commits = 1, frame_dones = 2,
         nudges = 1, processed = [1]\<rparr>"
    by (simp add: fpslimit_init_def fpslimit_set_target_def fpslimit_mark_frame_def
        mark_frame_def wait_predicate_def fpslimitThreadRun_pass_def
        fpslimit_use_frame_callbacks_for_focus_window_def c_int_mod_def c_int_div_def
        signed_divide_int_def signed_modulo_int_def nsec_per_def release_commit_def
        advance_targetPoint.simps Let_def)
  have p: "fpslimitThreadRun_pass
        \<lparr>outputRefresh = 60, clock_t1 = 2000000, clock_now = 2000100,
         clock_woken = 33334500, clock_released = 33334600\<rparr> 30
        \<lparr>lastFrame = 0, currentFrame = 5000, frameCount = 1\<rparr> (fpslimit_init 0 0 1000)
     = Some \<lparr>g_nFpsLimitTargetFPS = 0,
         g_FrameInfo = \<lparr>lastFrame = 0, currentFrame = 0, frameCount = 0\<rparr>,
         deviation = 167, lastFrameCount = 1, lastCommitReleased = 33334600,
         targetInterval = 33333333, snapshot = None, release_commits = 1, frame_dones = 2,
         nudges = 1, processed = [1]\<rparr>"
    by (simp add: fpslimit_init_def fpslimitThreadRun_pass_def
        fpslimit_use_frame_callbacks_for_focus_window_def c_int_mod_def c_int_div_def
        signed_divide_int_def signed_modulo_int_def nsec_per_def release_commit_def
        advance_targetPoint.simps Let_def)
  from deviation_bounded [THEN conjunct1, rule_format, OF r]
    deviation_bounded [THEN conjunct2, rule_format, OF p] r p
  show ?thesis by simp
qed

text \<open>
  C9. The deviation is a \<open>uint64_t\<close>. In a pass that takes the sleeping branch, when
  the frame time measured after the sleep plus the deviation is below the target
  interval, the sum of line 235 wraps to \<open>2 ^ 64\<close> minus the shortfall, which is at
  least \<open>2 ^ 64 - 1000000000\<close>, and line 236 leaves the deviation at exactly
  \<open>targetInterval / 16\<close>.
\<close>

theorem deviation_wraps_to_maximum:
  assumes "fpslimitThreadRun_pass e n fi s = Some s'"
    and "nsec_per n = Some tI"
    and "\<not> tI * 103 - deviation s * 100 < (clock_t1 e - lastCommitReleased s) * 100"
    and "unat (clock_woken e - lastCommitReleased s) + unat (deviation s) < unat tI"
  shows "unat (deviation s + (clock_woken e - lastCommitReleased s - tI))
           = 2 ^ 64 - (unat tI - (unat (clock_woken e - lastCommitReleased s) + unat (deviation s)))
       \<and> 2 ^ 64 - 1000000000 \<le> unat (deviation s + (clock_woken e - lastCommitReleased s - tI))
       \<and> deviation s' = tI div 16"
proof -
  let ?ft = "clock_woken e - lastCommitReleased s"
  have t: "unat tI \<le> 1000000000" using assms(2) by (rule nsec_per_le)
  have w: "unat (deviation s + (?ft - tI)) = 2 ^ 64 - (unat tI - (unat ?ft + unat (deviation s)))"
    using t assms(4) by (rule deviation_wrap(1))
  have m: "min (deviation s + (?ft - tI)) (tI div 16) = tI div 16"
    using t assms(4) by (rule deviation_wrap(2))
  have "deviation s' = min (deviation s + (?ft - tI)) (tI div 16)"
    using assms(1,2,3) by (rule pass_sleep_deviation)
  then have "deviation s' = tI div 16" using m by simp
  moreover have "2 ^ 64 - 1000000000 \<le> unat (deviation s + (?ft - tI))"
    unfolding w using t by simp
  ultimately show ?thesis using w by simp
qed

theorem deviation_wraps_to_maximum_witness:
  "fpslimitThreadRun_pass
     \<lparr>outputRefresh = 60, clock_t1 = 2000000, clock_now = 2000100,
      clock_woken = 30000000, clock_released = 30000100\<rparr> 30
     \<lparr>lastFrame = 0, currentFrame = 5000, frameCount = 1\<rparr> (fpslimit_init 0 0 1000)
     = Some \<lparr>g_nFpsLimitTargetFPS = 0,
         g_FrameInfo = \<lparr>lastFrame = 0, currentFrame = 0, frameCount = 0\<rparr>,
         deviation = 2083333, lastFrameCount = 1, lastCommitReleased = 30000100,
         targetInterval = 33333333, snapshot = None, release_commits = 1, frame_dones = 2,
         nudges = 1, processed = [1]\<rparr>
   \<and> nsec_per 30 = Some 33333333
   \<and> unat (0 + (30000000 - 1000 - 33333333) :: u64) = 2 ^ 64 - (33333333 - 29999000)
   \<and> (33333333 :: u64) div 16 = 2083333"
proof -
  let ?e = "\<lparr>outputRefresh = 60, clock_t1 = 2000000, clock_now = 2000100,
      clock_woken = 30000000, clock_released = 30000100\<rparr>"
  let ?fi = "\<lparr>lastFrame = 0, currentFrame = 5000, frameCount = 1\<rparr>"
  let ?s' = "\<lparr>g_nFpsLimitTargetFPS = 0,
         g_FrameInfo = \<lparr>lastFrame = 0, currentFrame = 0, frameCount = 0\<rparr>,
         deviation = 2083333, lastFrameCount = 1, lastCommitReleased = 30000100,
         targetInterval = 33333333, snapshot = None, release_commits = 1, frame_dones = 2,
         nudges = 1, processed = [1]\<rparr>"
  have p: "fpslimitThreadRun_pass ?e 30 ?fi (fpslimit_init 0 0 1000) = Some ?s'"
    by (simp add: fpslimit_init_def fpslimitThreadRun_pass_def
        fpslimit_use_frame_callbacks_for_focus_window_def c_int_mod_def c_int_div_def
        signed_divide_int_def signed_modulo_int_def nsec_per_def release_commit_def
        advance_targetPoint.simps Let_def)
  have t: "nsec_per 30 = Some 33333333" by (simp add: nsec_per_def)
  have b: "\<not> 33333333 * 103 - deviation (fpslimit_init 0 0 1000) * 100
              < (clock_t1 ?e - lastCommitReleased (fpslimit_init 0 0 1000)) * 100"
    by (simp add: fpslimit_init_def)
  have h: "unat (clock_woken ?e - lastCommitReleased (fpslimit_init 0 0 1000))
             + unat (deviation (fpslimit_init 0 0 1000)) < unat (33333333 :: u64)"
    by (simp add: fpslimit_init_def)
  from deviation_wraps_to_maximum [OF p t b h] p t show ?thesis
    by (simp add: fpslimit_init_def)
qed


section \<open>The limiter and its callers\<close>

lemma inv_init: "limiter_inv (fpslimit_init ta tb tc)"
  by (simp add: limiter_inv_def fpslimit_init_def)

lemma word_le_Suc:
  fixes a b :: u64
  assumes "a \<le> b" and "unat b + 1 < 2 ^ 64"
  shows "a \<le> b + 1" and "unat (b + 1) = unat b + 1" and "b + 1 \<noteq> a"
proof -
  have "unat b + unat (1 :: u64) < 2 ^ LENGTH(64)" using assms(2) by simp
  then have "unat (b + 1) = unat b + unat (1 :: u64)" by (rule unat_add_lem [THEN iffD1])
  then show u: "unat (b + 1) = unat b + 1" by simp
  have ab: "unat a \<le> unat b" using assms(1) by (simp add: word_le_nat_alt)
  then show "a \<le> b + 1" using u by (simp add: word_le_nat_alt)
  show "b + 1 \<noteq> a"
  proof
    assume "b + 1 = a"
    then have "unat (b + 1) = unat a" by simp
    then show False using u ab by simp
  qed
qed

lemma pass_fields:
  assumes "fpslimitThreadRun_pass e n fi s = Some s'"
  shows "lastFrameCount s' = frameCount fi"
    and "processed s' = processed s @ [frameCount fi]"
    and "g_FrameInfo s' = g_FrameInfo s"
    and "g_nFpsLimitTargetFPS s' = g_nFpsLimitTargetFPS s"
    and "snapshot s' = snapshot s"
    and "release_commits s' = release_commits s + 1"
  using assms
  by (auto simp add: fpslimitThreadRun_pass_def release_commit_def Let_def
      split: option.splits if_splits)

lemma step_inv:
  assumes st: "step ev s = Some s'" and inv: "limiter_inv s"
    and nw: "unat (frameCount (g_FrameInfo s)) + 1 < 2 ^ 64"
  shows "limiter_inv s'"
    and "unat (frameCount (g_FrameInfo s')) \<le> unat (frameCount (g_FrameInfo s)) + 1"
proof -
  have both: "limiter_inv s' \<and> unat (frameCount (g_FrameInfo s')) \<le> unat (frameCount (g_FrameInfo s)) + 1"
  proof (cases ev)
    case (SetTarget n)
    with st inv show ?thesis
      by (auto simp add: limiter_inv_def fpslimit_set_target_def)
  next
    case (MarkFrame t)
    have l: "lastFrameCount s \<le> frameCount (g_FrameInfo s)"
      using inv by (simp add: limiter_inv_def)
    note a = word_le_Suc [OF _ nw]
    have s': "s' = s\<lparr>g_FrameInfo := mark_frame t (g_FrameInfo s)\<rparr>"
      using st MarkFrame by (simp add: fpslimit_mark_frame_def)
    have fc: "frameCount (g_FrameInfo s') = frameCount (g_FrameInfo s) + 1"
      unfolding s' by (simp add: mark_frame_def)
    have "limiter_inv s'"
      using inv a(1) unfolding limiter_inv_def fc
      by (simp add: s')
    moreover have "unat (frameCount (g_FrameInfo s')) \<le> unat (frameCount (g_FrameInfo s)) + 1"
      unfolding fc using a(2) [OF l] by simp
    ultimately show ?thesis by simp
  next
    case Wake
    with st have c: "snapshot s = None" "wait_predicate s"
      and s': "s' = s\<lparr>snapshot := Some (g_nFpsLimitTargetFPS s, g_FrameInfo s)\<rparr>"
      by (auto split: if_splits)
    from c(2) inv have "lastFrameCount s < frameCount (g_FrameInfo s)"
      by (auto simp add: wait_predicate_def limiter_inv_def)
    with c inv show ?thesis
      by (auto simp add: s' limiter_inv_def wait_predicate_def)
  next
    case (Pass e)
    with st obtain n fi s1 where sn: "snapshot s = Some (n, fi)"
      and p: "fpslimitThreadRun_pass e n fi s = Some s1"
      and s': "s' = s1\<lparr>snapshot := None\<rparr>"
      by (auto split: option.splits)
    note f = pass_fields [OF p]
    from inv sn have i: "lastFrameCount s \<le> frameCount (g_FrameInfo s)"
      "lastFrameCount s < frameCount fi" "frameCount fi \<le> frameCount (g_FrameInfo s)"
      "sorted_wrt (<) (processed s)" "\<forall>c \<in> set (processed s). c \<le> lastFrameCount s"
      by (auto simp add: limiter_inv_def)
    have "sorted_wrt (<) (processed s @ [frameCount fi])"
      using i(2,4,5) by (auto simp add: sorted_wrt_append)
    moreover have "\<forall>c \<in> set (processed s @ [frameCount fi]). c \<le> frameCount fi"
      using i(2,5) by auto
    ultimately show ?thesis
      using i(3) by (simp add: s' limiter_inv_def f)
  qed
  from both show "limiter_inv s'" by simp
  from both show "unat (frameCount (g_FrameInfo s')) \<le> unat (frameCount (g_FrameInfo s)) + 1"
    by simp
qed

lemma run_inv:
  assumes "run evs s = Some s'" and "limiter_inv s"
    and "unat (frameCount (g_FrameInfo s)) + length evs < 2 ^ 64"
  shows "limiter_inv s' \<and> unat (frameCount (g_FrameInfo s')) \<le> unat (frameCount (g_FrameInfo s)) + length evs"
  using assms
proof (induction evs arbitrary: s)
  case Nil
  then show ?case by simp
next
  case (Cons ev evs)
  from Cons.prems(1) obtain s1 where s1: "step ev s = Some s1" and r: "run evs s1 = Some s'"
    by (auto split: option.splits)
  have nw: "unat (frameCount (g_FrameInfo s)) + 1 < 2 ^ 64" using Cons.prems(3) by simp
  note si = step_inv [OF s1 Cons.prems(2) nw]
  have "unat (frameCount (g_FrameInfo s1)) + length evs < 2 ^ 64"
    using si(2) Cons.prems(3) by simp
  from Cons.IH [OF r si(1) this] si(2) show ?case by simp
qed

lemma run_frames_ordered:
  assumes "run evs s = Some s'"
    and "lastFrame (g_FrameInfo s) \<le> currentFrame (g_FrameInfo s)"
    and "sorted (currentFrame (g_FrameInfo s) # mark_times evs)"
  shows "lastFrame (g_FrameInfo s') \<le> currentFrame (g_FrameInfo s')"
  using assms
proof (induction evs arbitrary: s)
  case Nil
  then show ?case by simp
next
  case (Cons ev evs)
  from Cons.prems(1) obtain s1 where s1: "step ev s = Some s1" and r: "run evs s1 = Some s'"
    by (auto split: option.splits)
  have "lastFrame (g_FrameInfo s1) \<le> currentFrame (g_FrameInfo s1)
        \<and> sorted (currentFrame (g_FrameInfo s1) # mark_times evs)"
  proof (cases ev)
    case (SetTarget n)
    with s1 Cons.prems(2,3) show ?thesis by (auto simp add: fpslimit_set_target_def)
  next
    case (MarkFrame t)
    with s1 Cons.prems(2,3) show ?thesis
      by (auto simp add: fpslimit_mark_frame_def mark_frame_def)
  next
    case Wake
    with s1 Cons.prems(2,3) show ?thesis by (auto split: if_splits)
  next
    case (Pass e)
    with s1 obtain n fi s2 where p: "fpslimitThreadRun_pass e n fi s = Some s2"
      and "s1 = s2\<lparr>snapshot := None\<rparr>"
      by (auto split: option.splits)
    then show ?thesis using pass_fields(3) [OF p] Cons.prems(2,3) Pass by simp
  qed
  then show ?case using Cons.IH [OF r] by simp
qed

lemma step_blocked:
  assumes "step ev s = Some s1"
    and "g_nFpsLimitTargetFPS s = 0" and "snapshot s = None"
    and "\<forall>n. ev = SetTarget n \<longrightarrow> n = 0"
  shows "g_nFpsLimitTargetFPS s1 = 0 \<and> snapshot s1 = None
       \<and> release_commits s1 = release_commits s \<and> processed s1 = processed s
       \<and> ev \<noteq> Wake \<and> (\<forall>e. ev \<noteq> Pass e)"
proof (cases ev)
  case (SetTarget n)
  with assms show ?thesis by (auto simp add: fpslimit_set_target_def)
next
  case (MarkFrame t)
  with assms show ?thesis by (auto simp add: fpslimit_mark_frame_def)
next
  case Wake
  with assms show ?thesis by (simp add: wait_predicate_def)
next
  case (Pass e)
  with assms show ?thesis by simp
qed

lemma run_blocked:
  assumes "run evs s = Some s'"
    and "g_nFpsLimitTargetFPS s = 0" and "snapshot s = None"
    and "\<forall>n. SetTarget n \<in> set evs \<longrightarrow> n = 0"
  shows "g_nFpsLimitTargetFPS s' = 0 \<and> snapshot s' = None
       \<and> release_commits s' = release_commits s \<and> processed s' = processed s
       \<and> Wake \<notin> set evs \<and> (\<forall>e. Pass e \<notin> set evs)"
  using assms
proof (induction evs arbitrary: s)
  case Nil
  then show ?case by simp
next
  case (Cons ev evs)
  from Cons.prems(1) obtain s1 where s1: "step ev s = Some s1" and r: "run evs s1 = Some s'"
    by (auto split: option.splits)
  have "\<forall>n. ev = SetTarget n \<longrightarrow> n = 0" using Cons.prems(4) by simp
  note k = step_blocked [OF s1 Cons.prems(2,3) this]
  have "\<forall>n. SetTarget n \<in> set evs \<longrightarrow> n = 0" using Cons.prems(4) by simp
  with k r have i: "g_nFpsLimitTargetFPS s' = 0 \<and> snapshot s' = None
       \<and> release_commits s' = release_commits s1 \<and> processed s' = processed s1
       \<and> Wake \<notin> set evs \<and> (\<forall>e. Pass e \<notin> set evs)"
    by (intro Cons.IH) simp_all
  from k have e1: "ev \<noteq> Wake" and e2: "\<forall>e. ev \<noteq> Pass e" by simp_all
  from i k show ?case using e1 e2 by (simp add: eq_commute [of _ ev])
qed

text \<open>
  C7. \<open>fpslimit_mark_frame\<close> moves \<open>currentFrame\<close> into \<open>lastFrame\<close>, stores the clock
  reading in \<open>currentFrame\<close> and adds 1 to \<open>frameCount\<close> (exactly 1 as a number unless
  the counter is at \<open>2 ^ 64 - 1\<close>). With a clock that does not go back,
  \<open>lastFrame \<le> currentFrame\<close> after the call, and in every state reached from the
  initial one. The thread leaves its wait only with a count different from the one it
  saw last, and a pass records the count of its snapshot; so, for fewer than \<open>2 ^ 64\<close>
  steps, the counts the passes worked on increase strictly and none occurs twice.
\<close>

theorem mark_frame_and_frames_processed_once:
  "g_FrameInfo (fpslimit_mark_frame now s)
     = \<lparr>lastFrame = currentFrame (g_FrameInfo s), currentFrame = now,
        frameCount = frameCount (g_FrameInfo s) + 1\<rparr>
   \<and> (frameCount (g_FrameInfo s) \<noteq> - 1 \<longrightarrow>
        unat (frameCount (g_FrameInfo (fpslimit_mark_frame now s)))
          = unat (frameCount (g_FrameInfo s)) + 1)
   \<and> (currentFrame (g_FrameInfo s) \<le> now \<longrightarrow>
        lastFrame (g_FrameInfo (fpslimit_mark_frame now s))
          \<le> currentFrame (g_FrameInfo (fpslimit_mark_frame now s)))
   \<and> (run evs (fpslimit_init ta tb tc) = Some s' \<and> ta \<le> tb \<and> sorted (tb # mark_times evs) \<longrightarrow>
        lastFrame (g_FrameInfo s') \<le> currentFrame (g_FrameInfo s'))
   \<and> (run evs (fpslimit_init ta tb tc) = Some s' \<and> length evs < 2 ^ 64 \<longrightarrow>
        sorted_wrt (<) (processed s') \<and> distinct (processed s'))
   \<and> (step Wake s = Some sw \<longrightarrow>
        frameCount (g_FrameInfo s) \<noteq> lastFrameCount s
      \<and> snapshot sw = Some (g_nFpsLimitTargetFPS s, g_FrameInfo s))
   \<and> (step (Pass e) s = Some sp \<and> snapshot s = Some (n, fi) \<longrightarrow>
        lastFrameCount sp = frameCount fi \<and> processed sp = processed s @ [frameCount fi])"
proof (intro conjI impI)
  show "g_FrameInfo (fpslimit_mark_frame now s)
     = \<lparr>lastFrame = currentFrame (g_FrameInfo s), currentFrame = now,
        frameCount = frameCount (g_FrameInfo s) + 1\<rparr>"
    by (simp add: fpslimit_mark_frame_def mark_frame_def)
next
  assume "frameCount (g_FrameInfo s) \<noteq> - 1"
  then have "1 + frameCount (g_FrameInfo s) \<noteq> 0"
    by (simp add: add_eq_0_iff)
  then have "unat (1 + frameCount (g_FrameInfo s)) = Suc (unat (frameCount (g_FrameInfo s)))"
    by (rule unatSuc)
  then have "unat (frameCount (g_FrameInfo s) + 1) = unat (frameCount (g_FrameInfo s)) + 1"
    by (simp add: add.commute)
  then show "unat (frameCount (g_FrameInfo (fpslimit_mark_frame now s)))
          = unat (frameCount (g_FrameInfo s)) + 1"
    by (simp add: fpslimit_mark_frame_def mark_frame_def)
next
  assume "currentFrame (g_FrameInfo s) \<le> now"
  then show "lastFrame (g_FrameInfo (fpslimit_mark_frame now s))
          \<le> currentFrame (g_FrameInfo (fpslimit_mark_frame now s))"
    by (simp add: fpslimit_mark_frame_def mark_frame_def)
next
  assume a: "run evs (fpslimit_init ta tb tc) = Some s' \<and> ta \<le> tb \<and> sorted (tb # mark_times evs)"
  then have "run evs (fpslimit_init ta tb tc) = Some s'" by simp
  moreover have "lastFrame (g_FrameInfo (fpslimit_init ta tb tc))
                   \<le> currentFrame (g_FrameInfo (fpslimit_init ta tb tc))"
    using a by (simp add: fpslimit_init_def)
  moreover have "sorted (currentFrame (g_FrameInfo (fpslimit_init ta tb tc)) # mark_times evs)"
    using a by (simp add: fpslimit_init_def)
  ultimately show "lastFrame (g_FrameInfo s') \<le> currentFrame (g_FrameInfo s')"
    by (rule run_frames_ordered)
next
  assume a: "run evs (fpslimit_init ta tb tc) = Some s' \<and> length evs < 2 ^ 64"
  then have "run evs (fpslimit_init ta tb tc) = Some s'" by simp
  moreover note inv_init [of ta tb tc]
  moreover have "unat (frameCount (g_FrameInfo (fpslimit_init ta tb tc))) + length evs < 2 ^ 64"
    using a by (simp add: fpslimit_init_def)
  ultimately have "limiter_inv s'" using run_inv by blast
  then show st: "sorted_wrt (<) (processed s')" by (simp add: limiter_inv_def)
  then show "distinct (processed s')" by (simp add: strict_sorted_iff)
next
  assume "step Wake s = Some sw"
  then show "frameCount (g_FrameInfo s) \<noteq> lastFrameCount s"
    and "snapshot sw = Some (g_nFpsLimitTargetFPS s, g_FrameInfo s)"
    by (auto simp add: wait_predicate_def split: if_splits)
next
  assume a: "step (Pass e) s = Some sp \<and> snapshot s = Some (n, fi)"
  then obtain sq where p: "fpslimitThreadRun_pass e n fi s = Some sq"
    and sp: "sp = sq\<lparr>snapshot := None\<rparr>"
    by auto
  show "lastFrameCount sp = frameCount fi" using pass_fields(1) [OF p] sp by simp
  show "processed sp = processed s @ [frameCount fi]" using pass_fields(2) [OF p] sp by simp
qed


theorem mark_frame_and_frames_processed_once_witness:
  "run [SetTarget 30, MarkFrame 5000, Wake,
        Pass \<lparr>outputRefresh = 60, clock_t1 = 2000000, clock_now = 2000100,
              clock_woken = 33334500, clock_released = 33334600\<rparr>,
        MarkFrame 33340000, Wake] (fpslimit_init 0 0 1000)
     = Some \<lparr>g_nFpsLimitTargetFPS = 30,
         g_FrameInfo = \<lparr>lastFrame = 5000, currentFrame = 33340000, frameCount = 2\<rparr>,
         deviation = 167, lastFrameCount = 1, lastCommitReleased = 33334600,
         targetInterval = 33333333,
         snapshot = Some (30, \<lparr>lastFrame = 5000, currentFrame = 33340000, frameCount = 2\<rparr>),
         release_commits = 1, frame_dones = 2, nudges = 1, processed = [1]\<rparr>
   \<and> (0 :: u64) \<le> 0 \<and> sorted [0 :: u64, 5000, 33340000]
   \<and> (5000 :: u64) \<le> 33340000 \<and> distinct [1 :: u64]
   \<and> g_FrameInfo (fpslimit_mark_frame 5000 (fpslimit_init 0 0 1000))
       = \<lparr>lastFrame = 0, currentFrame = 5000, frameCount = 1\<rparr>
   \<and> unat (frameCount (g_FrameInfo (fpslimit_mark_frame 5000 (fpslimit_init 0 0 1000)))) = 1
   \<and> step Wake \<lparr>g_nFpsLimitTargetFPS = 30,
         g_FrameInfo = \<lparr>lastFrame = 0, currentFrame = 5000, frameCount = 1\<rparr>,
         deviation = 0, lastFrameCount = 0, lastCommitReleased = 1000, targetInterval = 0,
         snapshot = None, release_commits = 0, frame_dones = 0, nudges = 0, processed = []\<rparr>
       = Some \<lparr>g_nFpsLimitTargetFPS = 30,
         g_FrameInfo = \<lparr>lastFrame = 0, currentFrame = 5000, frameCount = 1\<rparr>,
         deviation = 0, lastFrameCount = 0, lastCommitReleased = 1000, targetInterval = 0,
         snapshot = Some (30, \<lparr>lastFrame = 0, currentFrame = 5000, frameCount = 1\<rparr>),
         release_commits = 0, frame_dones = 0, nudges = 0, processed = []\<rparr>
   \<and> (1 :: u64) \<noteq> 0
   \<and> step (Pass \<lparr>outputRefresh = 60, clock_t1 = 2000000, clock_now = 2000100,
              clock_woken = 33334500, clock_released = 33334600\<rparr>)
         \<lparr>g_nFpsLimitTargetFPS = 30,
          g_FrameInfo = \<lparr>lastFrame = 0, currentFrame = 5000, frameCount = 1\<rparr>,
          deviation = 0, lastFrameCount = 0, lastCommitReleased = 1000, targetInterval = 0,
          snapshot = Some (30, \<lparr>lastFrame = 0, currentFrame = 5000, frameCount = 1\<rparr>),
          release_commits = 0, frame_dones = 0, nudges = 0, processed = []\<rparr>
       = Some \<lparr>g_nFpsLimitTargetFPS = 30,
         g_FrameInfo = \<lparr>lastFrame = 0, currentFrame = 5000, frameCount = 1\<rparr>,
         deviation = 167, lastFrameCount = 1, lastCommitReleased = 33334600,
         targetInterval = 33333333, snapshot = None, release_commits = 1, frame_dones = 2,
         nudges = 1, processed = [1]\<rparr>"
proof -
  let ?e = "\<lparr>outputRefresh = 60, clock_t1 = 2000000, clock_now = 2000100,
              clock_woken = 33334500, clock_released = 33334600\<rparr>"
  let ?evs = "[SetTarget 30, MarkFrame 5000, Wake, Pass ?e, MarkFrame 33340000, Wake]"
  let ?s = "\<lparr>g_nFpsLimitTargetFPS = 30,
         g_FrameInfo = \<lparr>lastFrame = 5000, currentFrame = 33340000, frameCount = 2\<rparr>,
         deviation = 167, lastFrameCount = 1, lastCommitReleased = 33334600,
         targetInterval = 33333333,
         snapshot = Some (30, \<lparr>lastFrame = 5000, currentFrame = 33340000, frameCount = 2\<rparr>),
         release_commits = 1, frame_dones = 2, nudges = 1, processed = [1]\<rparr>"
  let ?fi = "\<lparr>lastFrame = 0, currentFrame = 5000, frameCount = 1\<rparr>"
  let ?a = "\<lparr>g_nFpsLimitTargetFPS = 30, g_FrameInfo = ?fi,
         deviation = 0, lastFrameCount = 0, lastCommitReleased = 1000, targetInterval = 0,
         snapshot = None, release_commits = 0, frame_dones = 0, nudges = 0, processed = []\<rparr>"
  let ?b = "\<lparr>g_nFpsLimitTargetFPS = 30, g_FrameInfo = ?fi,
         deviation = 0, lastFrameCount = 0, lastCommitReleased = 1000, targetInterval = 0,
         snapshot = Some (30, ?fi),
         release_commits = 0, frame_dones = 0, nudges = 0, processed = []\<rparr>"
  let ?c = "\<lparr>g_nFpsLimitTargetFPS = 30, g_FrameInfo = ?fi,
         deviation = 167, lastFrameCount = 1, lastCommitReleased = 33334600,
         targetInterval = 33333333, snapshot = None, release_commits = 1, frame_dones = 2,
         nudges = 1, processed = [1]\<rparr>"
  have r: "run ?evs (fpslimit_init 0 0 1000) = Some ?s"
    by (simp add: fpslimit_init_def fpslimit_set_target_def fpslimit_mark_frame_def
        mark_frame_def wait_predicate_def fpslimitThreadRun_pass_def
        fpslimit_use_frame_callbacks_for_focus_window_def c_int_mod_def c_int_div_def
        signed_divide_int_def signed_modulo_int_def nsec_per_def release_commit_def
        advance_targetPoint.simps Let_def)
  have w: "step Wake ?a = Some ?b" by (simp add: wait_predicate_def)
  have p: "step (Pass ?e) ?b = Some ?c"
    by (simp add: fpslimitThreadRun_pass_def
        fpslimit_use_frame_callbacks_for_focus_window_def c_int_mod_def c_int_div_def
        signed_divide_int_def signed_modulo_int_def nsec_per_def release_commit_def
        advance_targetPoint.simps Let_def)
  have m: "sorted ((0 :: u64) # mark_times ?evs)" by simp
  have l: "length ?evs < 2 ^ 64" by simp
  note t = mark_frame_and_frames_processed_once
    [where evs = ?evs and ta = 0 and tb = 0 and tc = 1000 and s' = ?s
       and now = 5000 and s = "fpslimit_init 0 0 1000"]
  note ta = mark_frame_and_frames_processed_once [where s = ?a and sw = ?b]
  note tb = mark_frame_and_frames_processed_once
    [where s = ?b and e = ?e and sp = ?c and n = 30 and fi = ?fi]
  have "lastFrame (g_FrameInfo ?s) \<le> currentFrame (g_FrameInfo ?s)"
    using t r m by blast
  moreover have "distinct (processed ?s)" using t r l by blast
  moreover have "g_FrameInfo (fpslimit_mark_frame 5000 (fpslimit_init 0 0 1000)) = ?fi"
    using t by (simp add: fpslimit_init_def)
  moreover have "frameCount (g_FrameInfo (fpslimit_init 0 0 1000)) \<noteq> - 1"
    by (simp add: fpslimit_init_def)
  with t have "unat (frameCount (g_FrameInfo (fpslimit_mark_frame 5000 (fpslimit_init 0 0 1000))))
                 = unat (frameCount (g_FrameInfo (fpslimit_init 0 0 1000))) + 1"
    by blast
  moreover have "frameCount (g_FrameInfo ?a) \<noteq> lastFrameCount ?a" using ta w by blast
  moreover have "snapshot ?b = Some (30, ?fi)" by simp
  with tb p have "lastFrameCount ?c = frameCount ?fi \<and> processed ?c = processed ?b @ [frameCount ?fi]"
    by blast
  ultimately show ?thesis using r w p by (simp add: fpslimit_init_def)
qed

lemma run_target_zero:
  assumes "run evs s = Some s'"
    and "g_nFpsLimitTargetFPS s = 0"
    and "\<forall>n. SetTarget n \<in> set evs \<longrightarrow> n = 0"
  shows "g_nFpsLimitTargetFPS s' = 0 \<and> Wake \<notin> set evs
       \<and> release_commits s' \<le> release_commits s + 1"
  using assms
proof (induction evs arbitrary: s)
  case Nil
  then show ?case by simp
next
  case (Cons ev evs)
  show ?case
  proof (cases "snapshot s")
    case None
    from run_blocked [OF Cons.prems(1,2) None Cons.prems(3)] show ?thesis by simp
  next
    case (Some sn)
    from Cons.prems(1) obtain u where u: "step ev s = Some u" and r: "run evs u = Some s'"
      by (auto split: option.splits)
    have rest: "\<forall>n. SetTarget n \<in> set evs \<longrightarrow> n = 0" using Cons.prems(3) by simp
    show ?thesis
    proof (cases ev)
      case (SetTarget n)
      then have "n = 0" using Cons.prems(3) by simp
      with u SetTarget Cons.prems(2)
      have "g_nFpsLimitTargetFPS u = 0" and "release_commits u = release_commits s"
        by (auto simp add: fpslimit_set_target_def)
      with Cons.IH [OF r _ rest] SetTarget show ?thesis by simp
    next
      case (MarkFrame t)
      with u Cons.prems(2)
      have "g_nFpsLimitTargetFPS u = 0" and "release_commits u = release_commits s"
        by (auto simp add: fpslimit_mark_frame_def)
      with Cons.IH [OF r _ rest] MarkFrame show ?thesis by simp
    next
      case Wake
      with u Some show ?thesis by simp
    next
      case (Pass e)
      with u Some obtain n fi v where sn: "sn = (n, fi)"
        and p: "fpslimitThreadRun_pass e n fi s = Some v"
        and uv: "u = v\<lparr>snapshot := None\<rparr>"
        by (cases sn) (auto split: option.splits)
      have "g_nFpsLimitTargetFPS u = 0" and "snapshot u = None"
        and rc: "release_commits u = release_commits s + 1"
        using pass_fields(4,6) [OF p] uv Cons.prems(2) by simp_all
      from run_blocked [OF r this(1,2) rest] rc Pass show ?thesis by simp
    qed
  qed
qed

text \<open>
  C6 as stated fails for a pass in flight. The thread takes its snapshot with a target of
  30, the target is then set to 0, and lines 193-251 go on with the snapshot without
  reading the target again: the pass releases a commit, and sends the frame callbacks and
  the nudge, while the target is 0.
\<close>

theorem limiter_release_counterexample:
  "run [SetTarget 30, MarkFrame 5000, Wake, SetTarget 0] (fpslimit_init 0 0 1000)
     = Some \<lparr>g_nFpsLimitTargetFPS = 0,
         g_FrameInfo = \<lparr>lastFrame = 0, currentFrame = 5000, frameCount = 1\<rparr>,
         deviation = 0, lastFrameCount = 0, lastCommitReleased = 1000, targetInterval = 0,
         snapshot = Some (30, \<lparr>lastFrame = 0, currentFrame = 5000, frameCount = 1\<rparr>),
         release_commits = 0, frame_dones = 0, nudges = 0, processed = []\<rparr>
   \<and> run [SetTarget 30, MarkFrame 5000, Wake, SetTarget 0,
           Pass \<lparr>outputRefresh = 60, clock_t1 = 2000000, clock_now = 2000100,
                 clock_woken = 33334500, clock_released = 33334600\<rparr>] (fpslimit_init 0 0 1000)
     = Some \<lparr>g_nFpsLimitTargetFPS = 0,
         g_FrameInfo = \<lparr>lastFrame = 0, currentFrame = 5000, frameCount = 1\<rparr>,
         deviation = 167, lastFrameCount = 1, lastCommitReleased = 33334600,
         targetInterval = 33333333, snapshot = None, release_commits = 1, frame_dones = 2,
         nudges = 1, processed = [1]\<rparr>"
  by (simp add: fpslimit_init_def fpslimit_set_target_def fpslimit_mark_frame_def
      mark_frame_def wait_predicate_def fpslimitThreadRun_pass_def
      fpslimit_use_frame_callbacks_for_focus_window_def c_int_mod_def c_int_div_def
      signed_divide_int_def signed_modulo_int_def nsec_per_def release_commit_def
      advance_targetPoint.simps Let_def)

text \<open>
  C6, amended. The wait of line 185 ends only when the target is not 0 and the frame
  count differs from the one seen last. With a target of 0 the thread cannot leave the
  wait: through any steps that keep the target at 0, a thread blocked in the wait stays
  blocked, none of the steps is a wake-up or a pass, and the number of released commits
  does not change. A pass already in flight when the target becomes 0 still ends and
  releases its commit: through any steps that keep the target at 0 there is no wake-up
  and at most one release. In a state reached in fewer than \<open>2 ^ 64 - 1\<close> steps with a
  target other than 0 (in particular after \<open>fpslimit_set_target n\<close> with \<open>n > 0\<close>), the
  predicate holds right after the next \<open>fpslimit_mark_frame\<close>, and a blocked thread takes
  its snapshot.
\<close>

theorem limiter_blocked_while_target_zero:
  "(wait_predicate s \<longleftrightarrow>
      g_nFpsLimitTargetFPS s \<noteq> 0 \<and> frameCount (g_FrameInfo s) \<noteq> lastFrameCount s)
   \<and> (g_nFpsLimitTargetFPS s = 0 \<longrightarrow> step Wake s = None)
   \<and> (run evs s = Some s' \<and> g_nFpsLimitTargetFPS s = 0 \<and> snapshot s = None
        \<and> (\<forall>n. SetTarget n \<in> set evs \<longrightarrow> n = 0) \<longrightarrow>
          g_nFpsLimitTargetFPS s' = 0 \<and> snapshot s' = None
        \<and> release_commits s' = release_commits s
        \<and> Wake \<notin> set evs \<and> (\<forall>e. Pass e \<notin> set evs))
   \<and> (run hist (fpslimit_init ta tb tc) = Some st \<and> Suc (length hist) < 2 ^ 64 \<longrightarrow>
        (g_nFpsLimitTargetFPS st \<noteq> 0 \<longrightarrow>
           wait_predicate (fpslimit_mark_frame t st)
         \<and> (snapshot st = None \<longrightarrow>
              step Wake (fpslimit_mark_frame t st)
                = Some ((fpslimit_mark_frame t st)
                    \<lparr>snapshot := Some (g_nFpsLimitTargetFPS st,
                                       g_FrameInfo (fpslimit_mark_frame t st))\<rparr>)))
      \<and> (n \<noteq> 0 \<longrightarrow>
           wait_predicate (fpslimit_mark_frame t (fpslimit_set_target n st))
         \<and> (snapshot st = None \<longrightarrow>
              step Wake (fpslimit_mark_frame t (fpslimit_set_target n st)) \<noteq> None)))
   \<and> (run evs s = Some s' \<and> g_nFpsLimitTargetFPS s = 0
        \<and> (\<forall>n. SetTarget n \<in> set evs \<longrightarrow> n = 0) \<longrightarrow>
          g_nFpsLimitTargetFPS s' = 0 \<and> Wake \<notin> set evs
        \<and> release_commits s' \<le> release_commits s + 1)"
proof (intro conjI impI)
  show "wait_predicate s \<longleftrightarrow>
      g_nFpsLimitTargetFPS s \<noteq> 0 \<and> frameCount (g_FrameInfo s) \<noteq> lastFrameCount s"
    by (simp add: wait_predicate_def)
next
  assume "g_nFpsLimitTargetFPS s = 0"
  then show "step Wake s = None" by (simp add: wait_predicate_def)
next
  assume a: "run evs s = Some s' \<and> g_nFpsLimitTargetFPS s = 0 \<and> snapshot s = None
        \<and> (\<forall>n. SetTarget n \<in> set evs \<longrightarrow> n = 0)"
  then have b: "g_nFpsLimitTargetFPS s' = 0 \<and> snapshot s' = None
       \<and> release_commits s' = release_commits s \<and> processed s' = processed s
       \<and> Wake \<notin> set evs \<and> (\<forall>e. Pass e \<notin> set evs)"
    by (intro run_blocked) simp_all
  from b show "g_nFpsLimitTargetFPS s' = 0" by simp
  from b show "snapshot s' = None" by simp
  from b show "release_commits s' = release_commits s" by simp
  from b show "Wake \<notin> set evs" by simp
  from b show "\<forall>e. Pass e \<notin> set evs" by simp
next
  assume a: "run hist (fpslimit_init ta tb tc) = Some st \<and> Suc (length hist) < 2 ^ 64"
  then have r: "run hist (fpslimit_init ta tb tc) = Some st" by simp
  have "unat (frameCount (g_FrameInfo (fpslimit_init ta tb tc))) + length hist < 2 ^ 64"
    using a by (simp add: fpslimit_init_def)
  from run_inv [OF r inv_init this]
  have i: "limiter_inv st" and "unat (frameCount (g_FrameInfo st)) \<le> length hist"
    by (simp_all add: fpslimit_init_def)
  then have nw: "unat (frameCount (g_FrameInfo st)) + 1 < 2 ^ 64" using a by simp
  have "lastFrameCount st \<le> frameCount (g_FrameInfo st)" using i by (simp add: limiter_inv_def)
  then have ne: "frameCount (g_FrameInfo st) + 1 \<noteq> lastFrameCount st"
    using nw by (rule word_le_Suc(3))
  {
    assume z: "g_nFpsLimitTargetFPS st \<noteq> 0"
    with ne show w: "wait_predicate (fpslimit_mark_frame t st)"
      by (simp add: wait_predicate_def fpslimit_mark_frame_def mark_frame_def)
    assume "snapshot st = None"
    with w show "step Wake (fpslimit_mark_frame t st)
                = Some ((fpslimit_mark_frame t st)
                    \<lparr>snapshot := Some (g_nFpsLimitTargetFPS st,
                                       g_FrameInfo (fpslimit_mark_frame t st))\<rparr>)"
      by (simp add: fpslimit_mark_frame_def)
  }
  {
    assume z: "n \<noteq> 0"
    with ne show w: "wait_predicate (fpslimit_mark_frame t (fpslimit_set_target n st))"
      by (simp add: wait_predicate_def fpslimit_mark_frame_def mark_frame_def
          fpslimit_set_target_def)
    assume "snapshot st = None"
    with w show "step Wake (fpslimit_mark_frame t (fpslimit_set_target n st)) \<noteq> None"
      by (simp add: fpslimit_mark_frame_def fpslimit_set_target_def)
  }
next
  assume a: "run evs s = Some s' \<and> g_nFpsLimitTargetFPS s = 0
        \<and> (\<forall>n. SetTarget n \<in> set evs \<longrightarrow> n = 0)"
  then have b: "g_nFpsLimitTargetFPS s' = 0 \<and> Wake \<notin> set evs
       \<and> release_commits s' \<le> release_commits s + 1"
    by (intro run_target_zero) simp_all
  from b show "g_nFpsLimitTargetFPS s' = 0" by simp
  from b show "Wake \<notin> set evs" by simp
  from b show "release_commits s' \<le> release_commits s + 1" by simp
qed

theorem limiter_blocked_while_target_zero_witness:
  "run [MarkFrame 5000, SetTarget 0, MarkFrame 6000] (fpslimit_init 0 0 1000)
     = Some \<lparr>g_nFpsLimitTargetFPS = 0,
         g_FrameInfo = \<lparr>lastFrame = 5000, currentFrame = 6000, frameCount = 2\<rparr>,
         deviation = 0, lastFrameCount = 0, lastCommitReleased = 1000, targetInterval = 0,
         snapshot = None, release_commits = 0, frame_dones = 0, nudges = 0, processed = []\<rparr>
   \<and> step Wake \<lparr>g_nFpsLimitTargetFPS = 0,
         g_FrameInfo = \<lparr>lastFrame = 5000, currentFrame = 6000, frameCount = 2\<rparr>,
         deviation = 0, lastFrameCount = 0, lastCommitReleased = 1000, targetInterval = 0,
         snapshot = None, release_commits = 0, frame_dones = 0, nudges = 0, processed = []\<rparr>
       = None
   \<and> \<not> wait_predicate (fpslimit_set_target 30 (fpslimit_init 0 0 1000))
   \<and> wait_predicate (fpslimit_mark_frame 7000 (fpslimit_set_target 30 (fpslimit_init 0 0 1000)))
   \<and> step Wake (fpslimit_mark_frame 7000 (fpslimit_set_target 30 (fpslimit_init 0 0 1000)))
       \<noteq> None
   \<and> run [SetTarget 30, MarkFrame 5000, Wake,
           Pass \<lparr>outputRefresh = 60, clock_t1 = 2000000, clock_now = 2000100,
                 clock_woken = 33334500, clock_released = 33334600\<rparr>] (fpslimit_init 0 0 1000)
     = Some \<lparr>g_nFpsLimitTargetFPS = 30,
         g_FrameInfo = \<lparr>lastFrame = 0, currentFrame = 5000, frameCount = 1\<rparr>,
         deviation = 167, lastFrameCount = 1, lastCommitReleased = 33334600,
         targetInterval = 33333333, snapshot = None, release_commits = 1, frame_dones = 2,
         nudges = 1, processed = [1]\<rparr>
   \<and> \<not> wait_predicate \<lparr>g_nFpsLimitTargetFPS = 30,
         g_FrameInfo = \<lparr>lastFrame = 0, currentFrame = 5000, frameCount = 1\<rparr>,
         deviation = 167, lastFrameCount = 1, lastCommitReleased = 33334600,
         targetInterval = 33333333, snapshot = None, release_commits = 1, frame_dones = 2,
         nudges = 1, processed = [1]\<rparr>
   \<and> wait_predicate (fpslimit_mark_frame 7000
         \<lparr>g_nFpsLimitTargetFPS = 30,
          g_FrameInfo = \<lparr>lastFrame = 0, currentFrame = 5000, frameCount = 1\<rparr>,
          deviation = 167, lastFrameCount = 1, lastCommitReleased = 33334600,
          targetInterval = 33333333, snapshot = None, release_commits = 1, frame_dones = 2,
          nudges = 1, processed = [1]\<rparr>)
   \<and> step (Pass \<lparr>outputRefresh = 60, clock_t1 = 2000000, clock_now = 2000100,
                 clock_woken = 33334500, clock_released = 33334600\<rparr>)
         \<lparr>g_nFpsLimitTargetFPS = 0,
          g_FrameInfo = \<lparr>lastFrame = 0, currentFrame = 5000, frameCount = 1\<rparr>,
          deviation = 0, lastFrameCount = 0, lastCommitReleased = 1000, targetInterval = 0,
          snapshot = Some (30, \<lparr>lastFrame = 0, currentFrame = 5000, frameCount = 1\<rparr>),
          release_commits = 0, frame_dones = 0, nudges = 0, processed = []\<rparr>
       = Some \<lparr>g_nFpsLimitTargetFPS = 0,
         g_FrameInfo = \<lparr>lastFrame = 0, currentFrame = 5000, frameCount = 1\<rparr>,
         deviation = 167, lastFrameCount = 1, lastCommitReleased = 33334600,
         targetInterval = 33333333, snapshot = None, release_commits = 1, frame_dones = 2,
         nudges = 1, processed = [1]\<rparr>
   \<and> (1 :: nat) \<le> 0 + 1"
proof -
  let ?e = "\<lparr>outputRefresh = 60, clock_t1 = 2000000, clock_now = 2000100,
                 clock_woken = 33334500, clock_released = 33334600\<rparr>"
  let ?fi = "\<lparr>lastFrame = 0, currentFrame = 5000, frameCount = 1\<rparr>"
  let ?evs = "[MarkFrame 5000, SetTarget 0, MarkFrame 6000]"
  let ?s = "\<lparr>g_nFpsLimitTargetFPS = 0,
         g_FrameInfo = \<lparr>lastFrame = 5000, currentFrame = 6000, frameCount = 2\<rparr>,
         deviation = 0, lastFrameCount = 0, lastCommitReleased = 1000, targetInterval = 0,
         snapshot = None, release_commits = 0, frame_dones = 0, nudges = 0, processed = []\<rparr>"
  let ?h = "[SetTarget 30, MarkFrame 5000, Wake, Pass ?e]"
  let ?u = "\<lparr>g_nFpsLimitTargetFPS = 30, g_FrameInfo = ?fi,
         deviation = 167, lastFrameCount = 1, lastCommitReleased = 33334600,
         targetInterval = 33333333, snapshot = None, release_commits = 1, frame_dones = 2,
         nudges = 1, processed = [1]\<rparr>"
  let ?a = "\<lparr>g_nFpsLimitTargetFPS = 0, g_FrameInfo = ?fi,
          deviation = 0, lastFrameCount = 0, lastCommitReleased = 1000, targetInterval = 0,
          snapshot = Some (30, ?fi),
          release_commits = 0, frame_dones = 0, nudges = 0, processed = []\<rparr>"
  let ?b = "\<lparr>g_nFpsLimitTargetFPS = 0, g_FrameInfo = ?fi,
         deviation = 167, lastFrameCount = 1, lastCommitReleased = 33334600,
         targetInterval = 33333333, snapshot = None, release_commits = 1, frame_dones = 2,
         nudges = 1, processed = [1]\<rparr>"
  note defs = fpslimit_init_def fpslimit_set_target_def fpslimit_mark_frame_def
      mark_frame_def wait_predicate_def fpslimitThreadRun_pass_def
      fpslimit_use_frame_callbacks_for_focus_window_def c_int_mod_def c_int_div_def
      signed_divide_int_def signed_modulo_int_def nsec_per_def release_commit_def
      advance_targetPoint.simps Let_def
  have r: "run ?evs (fpslimit_init 0 0 1000) = Some ?s" by (simp add: defs)
  have q: "run ?h (fpslimit_init 0 0 1000) = Some ?u" by (simp add: defs)
  have o: "run [] (fpslimit_init 0 0 1000) = Some (fpslimit_init 0 0 1000)" by simp
  have p: "step (Pass ?e) ?a = Some ?b" by (simp add: defs)
  have pr: "run [Pass ?e] ?a = Some ?b" by (simp add: defs)
  have l: "Suc (length ?evs) < 2 ^ 64" and k: "Suc (length ?h) < 2 ^ 64"
    and j: "Suc (length ([] :: event list)) < 2 ^ 64" by simp_all
  have z: "g_nFpsLimitTargetFPS (fpslimit_init 0 0 1000) = 0 \<and> snapshot (fpslimit_init 0 0 1000) = None
        \<and> (\<forall>n. SetTarget n \<in> set ?evs \<longrightarrow> n = 0)"
    by (simp add: fpslimit_init_def)
  note t = limiter_blocked_while_target_zero
    [where s = "fpslimit_init 0 0 1000" and evs = ?evs and s' = ?s
       and hist = "[]" and ta = 0 and tb = 0 and tc = 1000 and st = "fpslimit_init 0 0 1000"
       and n = 30 and t = 7000]
  note v = limiter_blocked_while_target_zero
    [where hist = ?h and ta = 0 and tb = 0 and tc = 1000 and st = ?u and t = 7000]
  note f = limiter_blocked_while_target_zero
    [where s = ?a and evs = "[Pass ?e]" and s' = ?b]
  have c0: "release_commits ?s = release_commits (fpslimit_init 0 0 1000) \<and> Wake \<notin> set ?evs"
    using t r z by blast
  have c1: "step Wake ?s = None" by (simp add: wait_predicate_def)
  have "(30 :: c_int) \<noteq> 0" and "snapshot (fpslimit_init 0 0 1000) = None"
    by (simp_all add: fpslimit_init_def)
  with t o j
  have c2: "wait_predicate (fpslimit_mark_frame 7000 (fpslimit_set_target 30 (fpslimit_init 0 0 1000)))"
    and c3: "step Wake (fpslimit_mark_frame 7000 (fpslimit_set_target 30 (fpslimit_init 0 0 1000)))
          \<noteq> None"
    by blast+
  have c4: "\<not> wait_predicate (fpslimit_set_target 30 (fpslimit_init 0 0 1000))"
    by (simp add: defs)
  have "g_nFpsLimitTargetFPS ?u \<noteq> 0" by simp
  with v q k have c5: "wait_predicate (fpslimit_mark_frame 7000 ?u)" by blast
  have c6: "\<not> wait_predicate ?u" by (simp add: wait_predicate_def)
  have "g_nFpsLimitTargetFPS ?a = 0 \<and> (\<forall>n. SetTarget n \<in> set [Pass ?e] \<longrightarrow> n = 0)"
    by simp
  with f pr have "release_commits ?b \<le> release_commits ?a + 1" by blast
  then have c7: "(1 :: nat) \<le> 0 + 1" by simp
  show ?thesis by (intro conjI) (fact r c1 c2 c3 c4 c5 c6 q p c7)+
qed

end
